theory Spec2Isabelle
  imports Main "HOL-Library.AList" "HOL-Library.Word"
begin

section \<open>JavaScript values\<close>

text \<open>
  The transformer of \<^verbatim>\<open>swc-transformer.ts\<close> works on option objects dynamically: it
  walks them by dotted string paths (\<^verbatim>\<open>set\<close>), spreads them and tests their fields for
  truthiness. The values are therefore modelled as JavaScript data rather than as a typed
  record. An object is the list of its own enumerable properties in JavaScript's property
  order; an array carries its elements and, since arrays are objects, the named properties
  that were assigned to it. Numbers are the integers a double holds exactly. Strings are
  byte strings holding the UTF-8 encoding of well-formed text.
\<close>

datatype jsv =
    JUndefined
  | JNull
  | JBool bool
  | JNum int
  | JStr string
  | JArr "jsv list" "(string \<times> jsv) list"
  | JObj "(string \<times> jsv) list"

text \<open>
  Every \<^verbatim>\<open>throw\<close> of the module and of the language is a value. \<open>TypeError\<close> is what
  strict-mode code (a TypeScript module is strict) raises on reading a property of
  \<^verbatim>\<open>undefined\<close> or \<^verbatim>\<open>null\<close>, on assigning a property of a primitive and on calling
  something that is not a function; \<open>Error msg\<close> is \<^verbatim>\<open>new Error(msg)\<close>; \<open>SystemError\<close>
  is a failure of the file system.
\<close>

datatype error = Error string | TypeError | SystemError

definition bindE :: "error + 'a \<Rightarrow> ('a \<Rightarrow> error + 'b) \<Rightarrow> error + 'b" where
  "bindE m f = (case m of Inl e \<Rightarrow> Inl e | Inr x \<Rightarrow> f x)"

subsection \<open>Truthiness, property access and assignment\<close>

text \<open>\<^verbatim>\<open>!!v\<close>: the falsy values are undefined, null, false, 0 and the empty string.\<close>

fun truthy :: "jsv \<Rightarrow> bool" where
  "truthy JUndefined = False"
| "truthy JNull = False"
| "truthy (JBool b) = b"
| "truthy (JNum n) = (n \<noteq> 0)"
| "truthy (JStr s) = (s \<noteq> [])"
| "truthy (JArr es ps) = True"
| "truthy (JObj ps) = True"

text \<open>\<^verbatim>\<open>v == null\<close>\<close>

fun nullish :: "jsv \<Rightarrow> bool" where
  "nullish JUndefined = True"
| "nullish JNull = True"
| "nullish v = False"

definition lookup :: "(string \<times> jsv) list \<Rightarrow> string \<Rightarrow> jsv" where
  "lookup ps k = (case map_of ps k of None \<Rightarrow> JUndefined | Some v \<Rightarrow> v)"

text \<open>
  \<^verbatim>\<open>o[k]\<close> for the identifier keys the module reads (\<^verbatim>\<open>jsc\<close>, \<^verbatim>\<open>env\<close>, \<^verbatim>\<open>target\<close>,
  \<^verbatim>\<open>module\<close>, ...; never an array index and never \<^verbatim>\<open>length\<close>): a property of undefined or
  null cannot be read, a primitive has no such property, an object or array is looked up.
\<close>

fun getProp :: "jsv \<Rightarrow> string \<Rightarrow> error + jsv" where
  "getProp JUndefined k = Inl TypeError"
| "getProp JNull k = Inl TypeError"
| "getProp (JBool b) k = Inr JUndefined"
| "getProp (JNum n) k = Inr JUndefined"
| "getProp (JStr s) k = Inr JUndefined"
| "getProp (JArr es ps) k = Inr (lookup ps k)"
| "getProp (JObj ps) k = Inr (lookup ps k)"

text \<open>\<^verbatim>\<open>o?.[k]\<close>: optional chaining gives undefined on undefined and null.\<close>

definition optProp :: "jsv \<Rightarrow> string \<Rightarrow> jsv" where
  "optProp v k = (case getProp v k of Inl e \<Rightarrow> JUndefined | Inr x \<Rightarrow> x)"

text \<open>A chain of optional reads, \<^verbatim>\<open>v?.k1?.k2\<close> ...: what the object holds at a path.\<close>

fun getPath :: "jsv \<Rightarrow> string list \<Rightarrow> jsv" where
  "getPath v [] = v"
| "getPath v (k # ks) = getPath (optProp v k) ks"

text \<open>
  \<^verbatim>\<open>o[k] = v\<close> in strict mode, for the same keys: an existing property keeps its place, a
  new one is added last; assigning to a primitive (or to undefined or null) throws.
\<close>

fun setProp :: "jsv \<Rightarrow> string \<Rightarrow> jsv \<Rightarrow> error + jsv" where
  "setProp (JArr es ps) k v = Inr (JArr es (AList.update k v ps))"
| "setProp (JObj ps) k v = Inr (JObj (AList.update k v ps))"
| "setProp u k v = Inl TypeError"

subsection \<open>Spread and rest\<close>

definition digit_char :: "nat \<Rightarrow> char" where
  "digit_char n = ''0123456789'' ! n"

fun decimal :: "nat \<Rightarrow> string" where
  "decimal n = (if n < 10 then [digit_char n] else decimal (n div 10) @ [digit_char (n mod 10)])"

declare decimal.simps [simp del]

text \<open>The index properties \<^verbatim>\<open>"0"\<close>, \<^verbatim>\<open>"1"\<close>, ... of an array or a string.\<close>

definition indexed :: "jsv list \<Rightarrow> (string \<times> jsv) list" where
  "indexed es = map (\<lambda>i. (decimal i, es ! i)) [0 ..< length es]"

text \<open>A key with a character that is not a digit: never one of the index properties.\<close>

definition ident :: "string \<Rightarrow> bool" where
  "ident k = (\<exists>c \<in> set k. c \<notin> set ''0123456789'')"

text \<open>
  The own enumerable properties that \<^verbatim>\<open>{...v}\<close> copies: none for undefined, null, a
  boolean or a number; the characters of a string under their indices; the elements of an
  array under their indices followed by its named properties; the properties of an object.
  (A string is indexed by UTF-16 code unit; the model's string case is for ASCII text.)
\<close>

fun ownProps :: "jsv \<Rightarrow> (string \<times> jsv) list" where
  "ownProps (JObj ps) = ps"
| "ownProps (JArr es ps) = indexed es @ ps"
| "ownProps (JStr s) = indexed (map (\<lambda>c. JStr [c]) s)"
| "ownProps v = []"

text \<open>
  \<^verbatim>\<open>const { k, ...rest } = v\<close>: destructuring undefined or null throws; otherwise \<open>rest\<close> is
  a fresh object with the own properties of \<open>v\<close> other than \<open>k\<close>.
\<close>

definition restWithout :: "string \<Rightarrow> jsv \<Rightarrow> error + jsv" where
  "restWithout k v = (if nullish v then Inl TypeError else Inr (JObj (AList.delete k (ownProps v))))"

section \<open>The option resolver\<close>

subsection \<open>\<^verbatim>\<open>set\<close>\<close>

text \<open>\<^verbatim>\<open>path.split('.')\<close>: the pieces between the dots; never the empty list.\<close>

fun split_dot :: "string \<Rightarrow> string list" where
  "split_dot [] = [[]]"
| "split_dot (c # cs) =
     (if c = CHR ''.'' then [] # split_dot cs
      else (case split_dot cs of [] \<Rightarrow> [[c]] | w # ws \<Rightarrow> (c # w) # ws))"

text \<open>
  The loop of \<^verbatim>\<open>set\<close> over the parent properties, followed by the final assignment
  \<^verbatim>\<open>o[key] = value\<close>. In the source \<open>o\<close> is a reference into the object being walked;
  here each level returns the updated child and the parent stores it back under the same
  property (the last \<open>setProp\<close>: the parent held a non-null child there, so it is an
  object and the store never throws).
\<close>

fun set_loop :: "jsv \<Rightarrow> string list \<Rightarrow> string \<Rightarrow> jsv \<Rightarrow> error + jsv" where
  "set_loop obj [] key v = setProp obj key v"
| "set_loop obj (prop # props) key v =
     bindE (getProp obj prop) (\<lambda>cur.
     bindE (if nullish cur then setProp obj prop (JObj []) else Inr obj) (\<lambda>obj1.
     bindE (getProp obj1 prop) (\<lambda>child.
     bindE (set_loop child props key v) (\<lambda>child'.
     setProp obj1 prop child'))))"

text \<open>\<^verbatim>\<open>set(obj, path, value)\<close>: \<open>key\<close> is the popped last piece, \<open>parents\<close> the rest.\<close>

definition set_js :: "jsv \<Rightarrow> string \<Rightarrow> jsv \<Rightarrow> error + jsv" where
  "set_js obj path v =
     (let parents = split_dot path; key = last parents
      in set_loop obj (butlast parents) key v)"

subsection \<open>The host: file system, parser, path functions, hashing\<close>

text \<open>
  What \<^verbatim>\<open>fs.existsSync\<close> and \<^verbatim>\<open>fs.readFileSync\<close> find at a path: nothing, something
  that exists and cannot be read as a file, or a file with its text.
\<close>

datatype fs_entry = Absent | Unreadable | Content string

text \<open>A \<^verbatim>\<open>ParseError\<close> of jsonc-parser: a plain object of three numbers.\<close>

record ParseError =
  pe_error :: nat
  pe_offset :: nat
  pe_length :: nat

text \<open>
  The call context jest passes (\<^verbatim>\<open>TransformOptions\<close>): the two fields the module reads.
\<close>

record TransformOptions =
  instrument :: bool
  supportsStaticESM :: bool

text \<open>
  One of the arguments after \<open>src\<close> and \<open>filename\<close> of \<^verbatim>\<open>getCacheKey\<close>: jest before
  version 27 passes a configuration string and then the options, later versions the
  options alone.
\<close>

datatype cache_arg = ArgString string | ArgOptions TransformOptions

text \<open>
  The libraries and the ambient state the module calls into are parameters: the working
  directory, \<^verbatim>\<open>path.join\<close> and \<^verbatim>\<open>path.resolve\<close>, the file system, jsonc-parser's
  \<^verbatim>\<open>parse\<close> (its result and the errors it pushed), the version string of the compiler,
  \<^verbatim>\<open>getCacheKeyFunction\<close> of jest (from the files and values to the key function) and the
  MD5 digest of a byte string.
\<close>

record host =
  cwd :: string
  path_join :: "string \<Rightarrow> string \<Rightarrow> string"
  path_resolve :: "string \<Rightarrow> string"
  fs :: "string \<Rightarrow> fs_entry"
  parseJsonC :: "string \<Rightarrow> jsv \<times> ParseError list"
  swcVersion :: string
  getCacheKeyFunction :: "string list \<Rightarrow> string list \<Rightarrow> string \<Rightarrow> string \<Rightarrow> cache_arg list \<Rightarrow> string"
  md5 :: "string \<Rightarrow> 8 word list"

subsection \<open>\<^verbatim>\<open>getOptionsFromSwrc\<close>\<close>

text \<open>The string a plain object converts to, as \<^verbatim>\<open>Array.prototype.join\<close> converts it.\<close>

definition ParseError_toString :: "ParseError \<Rightarrow> string" where
  "ParseError_toString e = ''[object Object]''"

fun join_js :: "string \<Rightarrow> string list \<Rightarrow> string" where
  "join_js sep [] = []"
| "join_js sep [x] = x"
| "join_js sep (x # y # ys) = x @ sep @ join_js sep (y # ys)"

definition swcrc_path :: "host \<Rightarrow> string" where
  "swcrc_path h = path_join h (cwd h) ''.swcrc''"

definition getOptionsFromSwrc :: "host \<Rightarrow> error + jsv" where
  "getOptionsFromSwrc h =
     (case fs h (swcrc_path h) of
        Absent \<Rightarrow> Inr (JObj [])
      | Unreadable \<Rightarrow> Inl SystemError
      | Content contents \<Rightarrow>
          (case parseJsonC h contents of (options, errors) \<Rightarrow>
             if length errors > 0
             then Inl (Error (''Error parsing '' @ swcrc_path h @ '': ''
                              @ join_js '', '' (map ParseError_toString errors)))
             else Inr options))"

subsection \<open>\<^verbatim>\<open>buildSwcTransformOpts\<close>\<close>

text \<open>\<^verbatim>\<open>path.resolve(v)\<close> throws a TypeError unless \<open>v\<close> is a string.\<close>

definition resolve_arg :: "host \<Rightarrow> jsv \<Rightarrow> error + jsv" where
  "resolve_arg h v = (case v of JStr s \<Rightarrow> Inr (JStr (path_resolve h s)) | _ \<Rightarrow> Inl TypeError)"

text \<open>\<^verbatim>\<open>swcOptions || getOptionsFromSwrc()\<close>: the options the resolver starts from.\<close>

definition given_options :: "host \<Rightarrow> jsv \<Rightarrow> error + jsv" where
  "given_options h swcOptions = (if truthy swcOptions then Inr swcOptions else getOptionsFromSwrc h)"

text \<open>
  \<open>c0\<close> is \<^verbatim>\<open>computedSwcOptions\<close> as the rest pattern creates it, \<open>c1\<close> to \<open>c3\<close> are the same
  object after each of the conditional assignments. It is always an object, so the plain
  reads \<^verbatim>\<open>computedSwcOptions.env\<close> and \<^verbatim>\<open>computedSwcOptions.sourceMaps\<close> cannot throw and
  are written with \<open>optProp\<close>, like the optional reads \<^verbatim>\<open>computedSwcOptions.jsc?.target\<close> and
  \<^verbatim>\<open>computedSwcOptions.jsc?.baseUrl\<close>.
\<close>

definition buildSwcTransformOpts :: "host \<Rightarrow> jsv \<Rightarrow> error + jsv" where
  "buildSwcTransformOpts h swcOptions =
     bindE (given_options h swcOptions) (\<lambda>given.
     bindE (restWithout ''experimental'' given) (\<lambda>c0.
     bindE (if \<not> truthy (optProp c0 ''env'') \<and> \<not> truthy (optProp (optProp c0 ''jsc'') ''target'')
            then set_js c0 ''jsc.target'' (JStr ''es2016'') else Inr c0) (\<lambda>c1.
     bindE (set_js c1 ''jsc.transform.hidden.jest'' (JBool True)) (\<lambda>c2.
     bindE (if \<not> truthy (optProp c2 ''sourceMaps'')
            then set_js c2 ''sourceMaps'' (JStr ''inline'') else Inr c2) (\<lambda>c3.
     if truthy (optProp (optProp c3 ''jsc'') ''baseUrl'')
     then bindE (resolve_arg h (optProp (optProp c3 ''jsc'') ''baseUrl'')) (\<lambda>p.
          set_js c3 ''jsc.baseUrl'' p)
     else Inr c3)))))"

section \<open>Serialisation and digests\<close>

definition hex_digit :: "nat \<Rightarrow> char" where
  "hex_digit n = ''0123456789abcdef'' ! (n mod 16)"

definition hex_byte :: "nat \<Rightarrow> string" where
  "hex_byte n = [hex_digit (n div 16), hex_digit (n mod 16)]"

text \<open>
  \<^verbatim>\<open>JSON.stringify\<close> of a string: the quotes, the two-character escapes, \<^verbatim>\<open>\u00xx\<close> for
  the other control characters, everything else as it is.
\<close>

definition json_escape :: "char \<Rightarrow> string" where
  "json_escape c =
     (if c = CHR 0x22 then [CHR 0x5C, CHR 0x22]
      else if c = CHR 0x5C then [CHR 0x5C, CHR 0x5C]
      else if c = CHR 0x08 then [CHR 0x5C, CHR ''b'']
      else if c = CHR 0x0C then [CHR 0x5C, CHR ''f'']
      else if c = CHR 0x0A then [CHR 0x5C, CHR ''n'']
      else if c = CHR 0x0D then [CHR 0x5C, CHR ''r'']
      else if c = CHR 0x09 then [CHR 0x5C, CHR ''t'']
      else if of_char c < (32::nat) then [CHR 0x5C, CHR ''u'', CHR ''0'', CHR ''0''] @ hex_byte (of_char c)
      else [c])"

definition json_quote :: "string \<Rightarrow> string" where
  "json_quote s = [CHR 0x22] @ concat (map json_escape s) @ [CHR 0x22]"

text \<open>
  \<^verbatim>\<open>JSON.stringify(v)\<close> for a value other than undefined (the module serialises objects
  only). Inside an array undefined is written \<^verbatim>\<open>null\<close>; a property of an object that
  holds undefined is left out; the named properties of an array are not written.
\<close>

fun json :: "jsv \<Rightarrow> string" where
  "json JUndefined = ''null''"
| "json JNull = ''null''"
| "json (JBool b) = (if b then ''true'' else ''false'')"
| "json (JNum n) = (if n < 0 then ''-'' @ decimal (nat (- n)) else decimal (nat n))"
| "json (JStr s) = json_quote s"
| "json (JArr es ps) = ''['' @ join_js '','' (map json es) @ '']''"
| "json (JObj ps) =
     ''{'' @ join_js '','' (map (\<lambda>p. json_quote (fst p) @ '':'' @ json (snd p))
                               (filter (\<lambda>p. snd p \<noteq> JUndefined) ps)) @ ''}''"

text \<open>\<^verbatim>\<open>digest('hex')\<close>: two lowercase hexadecimal digits for each byte of the digest.\<close>

definition hex :: "8 word list \<Rightarrow> string" where
  "hex bs = concat (map (\<lambda>b. hex_byte (unat b)) bs)"

section \<open>The transformer\<close>

definition version :: string where
  "version = ''0.2.26''"

definition coverage_plugin :: string where
  "coverage_plugin = ''swc-plugin-coverage-instrument''"

text \<open>
  What the closure returned by \<^verbatim>\<open>createTransformer\<close> holds: the flag, the shared options
  object (the one value the transform calls mutate), the instrumentation options and the
  key function obtained from jest at setup.
\<close>

record Transformer =
  canInstrument :: bool
  computedSwcOptions :: jsv
  instrumentOptions :: jsv
  cacheKeyFunction :: "string \<Rightarrow> string \<Rightarrow> cache_arg list \<Rightarrow> string"

text \<open>
  \<^verbatim>\<open>createTransformer\<close>. The resolver assigns below \<^verbatim>\<open>jsc\<close> and \<^verbatim>\<open>sourceMaps\<close> only, so
  the \<^verbatim>\<open>experimental\<close> property read afterwards from the caller's object is the one
  that was passed in.
\<close>

definition createTransformer :: "host \<Rightarrow> jsv \<Rightarrow> error + Transformer" where
  "createTransformer h swcTransformOpts =
     bindE (buildSwcTransformOpts h swcTransformOpts) (\<lambda>computed.
     let keyFunction = getCacheKeyFunction h [] [swcVersion h, version, json computed];
         given = optProp (optProp swcTransformOpts ''experimental'') ''customCoverageInstrumentation'';
         coverage = (if nullish given then JObj [] else given)
     in bindE (restWithout ''enabled'' coverage) (\<lambda>instrumentOpts.
        Inr \<lparr> canInstrument = truthy (optProp coverage ''enabled''),
              computedSwcOptions = computed,
              instrumentOptions = instrumentOpts,
              cacheKeyFunction = keyFunction \<rparr>))"

subsection \<open>\<^verbatim>\<open>insertInstrumentationOptions\<close>\<close>

text \<open>\<^verbatim>\<open>x[0]\<close>\<close>

fun index0 :: "jsv \<Rightarrow> error + jsv" where
  "index0 JUndefined = Inl TypeError"
| "index0 JNull = Inl TypeError"
| "index0 (JArr es ps) = Inr (case es of [] \<Rightarrow> JUndefined | e # _ \<Rightarrow> e)"
| "index0 (JStr s) = Inr (case s of [] \<Rightarrow> JUndefined | c # _ \<Rightarrow> JStr [c])"
| "index0 (JObj ps) = Inr (lookup ps ''0'')"
| "index0 v = Inr JUndefined"

text \<open>
  \<^verbatim>\<open>es.some((x) => x[0] === 'swc-plugin-coverage-instrument')\<close>: the elements in order up
  to the first match; an element that is undefined or null makes the callback throw.
\<close>

fun some_coverage :: "jsv list \<Rightarrow> error + bool" where
  "some_coverage [] = Inr False"
| "some_coverage (x # xs) =
     bindE (index0 x) (\<lambda>id. if id = JStr coverage_plugin then Inr True else some_coverage xs)"

text \<open>
  \<^verbatim>\<open>swcTransformOpts?.jsc?.experimental?.plugins?.some(...)\<close>: undefined (falsy) when the
  chain ends in undefined or null; a value that is not an array has no \<^verbatim>\<open>some\<close> to call.
\<close>

definition already_inserted :: "jsv \<Rightarrow> error + bool" where
  "already_inserted swcTransformOpts =
     (let plugins = optProp (optProp (optProp swcTransformOpts ''jsc'') ''experimental'') ''plugins''
      in if nullish plugins then Inr False
         else (case plugins of JArr es ps \<Rightarrow> some_coverage es | _ \<Rightarrow> Inl TypeError))"

fun isArray :: "jsv \<Rightarrow> bool" where
  "isArray (JArr es ps) = True"
| "isArray v = False"

fun push :: "jsv \<Rightarrow> jsv \<Rightarrow> error + jsv" where
  "push (JArr es ps) x = Inr (JArr (es @ [x]) ps)"
| "push v x = Inl TypeError"

text \<open>The descriptor that is pushed: \<^verbatim>\<open>['swc-plugin-coverage-instrument', instrumentOptions ?? {}]\<close>.\<close>

definition coverage_entry :: "jsv \<Rightarrow> jsv" where
  "coverage_entry instrumentOpts =
     JArr [JStr coverage_plugin, if nullish instrumentOpts then JObj [] else instrumentOpts] []"

text \<open>
  The function returns the shared options as the call leaves them. Each nested assignment
  of the source goes through references; here the updated child is stored back in its
  parent. No assignment comes before a throw (the guard throws before any; an assignment
  to a primitive \<^verbatim>\<open>jsc\<close> or \<^verbatim>\<open>experimental\<close> throws only when the tests before it found
  truthy values and assigned nothing), so a call that throws leaves the shared options as
  they were. The result is the shared options as a value, which is what the call does to
  them when no object on the path \<^verbatim>\<open>jsc.experimental.plugins\<close> is reachable along a second
  path; a write that shows at another path is the subject of the store model below.
\<close>

definition insertInstrumentationOptions :: "TransformOptions \<Rightarrow> bool \<Rightarrow> jsv \<Rightarrow> jsv \<Rightarrow> error + jsv" where
  "insertInstrumentationOptions jestOptions canInstr swcTransformOpts instrumentOpts =
     (let shouldInstrument = instrument jestOptions \<and> canInstr
      in if \<not> shouldInstrument then Inr swcTransformOpts
         else bindE (already_inserted swcTransformOpts) (\<lambda>found.
           if found then Inr swcTransformOpts
           else
             bindE (getProp swcTransformOpts ''jsc'') (\<lambda>j0.
             bindE (if \<not> truthy j0 then setProp swcTransformOpts ''jsc'' (JObj [])
                    else Inr swcTransformOpts) (\<lambda>opts1.
             bindE (getProp opts1 ''jsc'') (\<lambda>jsc.
             bindE (getProp jsc ''experimental'') (\<lambda>e0.
             bindE (if \<not> truthy e0 then setProp jsc ''experimental'' (JObj [])
                    else Inr jsc) (\<lambda>jsc1.
             bindE (getProp jsc1 ''experimental'') (\<lambda>exp.
             bindE (getProp exp ''plugins'') (\<lambda>p0.
             bindE (if \<not> isArray p0 then setProp exp ''plugins'' (JArr [] [])
                    else Inr exp) (\<lambda>exp1.
             bindE (getProp exp1 ''plugins'') (\<lambda>plugins.
             bindE (push plugins (coverage_entry instrumentOpts)) (\<lambda>plugins'.
             bindE (setProp exp1 ''plugins'' plugins') (\<lambda>exp2.
             bindE (setProp jsc1 ''experimental'' exp2) (\<lambda>jsc2.
             setProp opts1 ''jsc'' jsc2))))))))))))))"

subsection \<open>The transform operations\<close>

text \<open>
  The options object literal both operations build:
  \<^verbatim>\<open>{ ...computedSwcOptions, module: { ...computedSwcOptions.module, type }, filename }\<close>.
\<close>

definition overlay :: "jsv \<Rightarrow> string \<Rightarrow> string \<Rightarrow> error + jsv" where
  "overlay opts moduleType filename =
     bindE (getProp opts ''module'') (\<lambda>m.
     Inr (JObj (AList.update ''filename'' (JStr filename)
               (AList.update ''module'' (JObj (AList.update ''type'' (JStr moduleType) (ownProps m)))
               (ownProps opts)))))"

text \<open>
  The compiler is not part of the module: an operation ends in the call it delegates to,
  \<^verbatim>\<open>transformSync(src, options)\<close> or \<^verbatim>\<open>transform(src, options)\<close>, and returns what that
  call returns. The model of an operation returns the instance as the operation leaves it
  together with that call; the compiler is taken not to write to the options it is handed.
\<close>

datatype swc_call = TransformSync string jsv | Transform string jsv

definition process :: "Transformer \<Rightarrow> string \<Rightarrow> string \<Rightarrow> TransformOptions \<Rightarrow> error + Transformer \<times> swc_call" where
  "process t src filename jestOptions =
     bindE (insertInstrumentationOptions jestOptions (canInstrument t) (computedSwcOptions t)
              (instrumentOptions t)) (\<lambda>opts.
     bindE (overlay opts (if supportsStaticESM jestOptions then ''es6'' else ''commonjs'') filename) (\<lambda>ov.
     Inr (t\<lparr>computedSwcOptions := opts\<rparr>, TransformSync src ov)))"

definition processAsync :: "Transformer \<Rightarrow> string \<Rightarrow> string \<Rightarrow> TransformOptions \<Rightarrow> error + Transformer \<times> swc_call" where
  "processAsync t src filename jestOptions =
     bindE (insertInstrumentationOptions jestOptions (canInstrument t) (computedSwcOptions t)
              (instrumentOptions t)) (\<lambda>opts.
     bindE (overlay opts ''es6'' filename) (\<lambda>ov.
     Inr (t\<lparr>computedSwcOptions := opts\<rparr>, Transform src ov)))"

subsection \<open>\<^verbatim>\<open>getCacheKey\<close>\<close>

text \<open>\<^verbatim>\<open>rest[i]\<close>: undefined (\<open>None\<close>) past the end.\<close>

fun arg_at :: "cache_arg list \<Rightarrow> nat \<Rightarrow> cache_arg option" where
  "arg_at [] i = None"
| "arg_at (a # as) 0 = Some a"
| "arg_at (a # as) (Suc i) = arg_at as i"

fun is_string_arg :: "cache_arg option \<Rightarrow> bool" where
  "is_string_arg (Some (ArgString s)) = True"
| "is_string_arg a = False"

text \<open>
  \<^verbatim>\<open>options.supportsStaticESM\<close>: reading it from undefined throws, a string has no such
  property.
\<close>

fun flag_of :: "cache_arg option \<Rightarrow> error + jsv" where
  "flag_of None = Inl TypeError"
| "flag_of (Some (ArgString s)) = Inr JUndefined"
| "flag_of (Some (ArgOptions opts)) = Inr (JBool (supportsStaticESM opts))"

text \<open>The bytes the three \<^verbatim>\<open>update\<close> calls feed to the hash.\<close>

definition key_message :: "string \<Rightarrow> jsv \<Rightarrow> string" where
  "key_message baseCacheKey flag =
     baseCacheKey @ [CHR 0x00] @ json (JObj [(''supportsStaticESM'', flag)])"

definition getCacheKey :: "host \<Rightarrow> Transformer \<Rightarrow> string \<Rightarrow> string \<Rightarrow> cache_arg list \<Rightarrow> error + string" where
  "getCacheKey h t src filename rest =
     (let baseCacheKey = cacheKeyFunction t src filename rest;
          options = (if is_string_arg (arg_at rest 0) then arg_at rest 1 else arg_at rest 0)
      in bindE (flag_of options) (\<lambda>flag.
         Inr (hex (md5 h (key_message baseCacheKey flag)))))"

subsection \<open>Sequences of transform calls on one instance\<close>

datatype call =
    Process string string TransformOptions
  | ProcessAsync string string TransformOptions

fun perform :: "Transformer \<Rightarrow> call \<Rightarrow> error + Transformer \<times> swc_call" where
  "perform t (Process src filename jestOptions) = process t src filename jestOptions"
| "perform t (ProcessAsync src filename jestOptions) = processAsync t src filename jestOptions"

text \<open>
  The instance after a call. A call that throws inside the module throws before anything
  is assigned and leaves the instance as it was; a call that reaches the compiler leaves
  the shared options as the injector returned them, whatever the compiler then does.
\<close>

definition after :: "Transformer \<Rightarrow> call \<Rightarrow> Transformer" where
  "after t c = (case perform t c of Inl e \<Rightarrow> t | Inr (t', r) \<Rightarrow> t')"

definition run :: "Transformer \<Rightarrow> call list \<Rightarrow> Transformer" where
  "run t cs = foldl after t cs"

fun jestOptions_of :: "call \<Rightarrow> TransformOptions" where
  "jestOptions_of (Process src filename jestOptions) = jestOptions"
| "jestOptions_of (ProcessAsync src filename jestOptions) = jestOptions"

definition wantsCoverage :: "call \<Rightarrow> bool" where
  "wantsCoverage c = instrument (jestOptions_of c)"

text \<open>The options object a delegated compiler call carries.\<close>

fun call_options :: "swc_call \<Rightarrow> jsv" where
  "call_options (TransformSync src opts) = opts"
| "call_options (Transform src opts) = opts"

section \<open>The transform operations on a store of objects\<close>

text \<open>
  The option objects are shared. The rest pattern of \<^verbatim>\<open>buildSwcTransformOpts\<close> copies the
  caller's object one level deep, so every nested object of \<^verbatim>\<open>computedSwcOptions\<close> is the
  caller's own, and nothing keeps one object from being reachable along two paths.
  \<^verbatim>\<open>insertInstrumentationOptions\<close> assigns in place, and the object handed to the compiler
  is a shallow copy whose properties point into the shared options. The value model above
  returns updated values; it is what the assignments do to the options as long as no object
  is reachable along two paths, and it cannot say what a write through one path shows at
  another. The transform operations are therefore modelled a second time, on a store: a
  value is a primitive or a reference, and the store holds the object or array behind each
  reference. What a call leaves behind in the shared options and what it hands to the
  compiler is stated on this model.
\<close>

datatype val = VUndefined | VNull | VBool bool | VNum int | VStr string | VRef nat

text \<open>
  An object is the list of its named properties, an array its elements and its named
  properties. The store is the list of all objects made so far; a reference is the index
  of its object.
\<close>

datatype cell = Object "(string \<times> val) list" | Array "val list" "(string \<times> val) list"

type_synonym store = "cell list"

text \<open>
  The object behind a reference. A reference is made by \<open>alloc\<close> only and names a cell of
  the store; the reading outside the store is fixed (an empty object) so that the
  functions are total.
\<close>

definition cell_of :: "store \<Rightarrow> nat \<Rightarrow> cell" where
  "cell_of s a = (if a < length s then s ! a else Object [])"

fun named :: "cell \<Rightarrow> (string \<times> val) list" where
  "named (Object ps) = ps"
| "named (Array es ps) = ps"

fun elements :: "cell \<Rightarrow> val list" where
  "elements (Object ps) = []"
| "elements (Array es ps) = es"

fun isArrayCell :: "cell \<Rightarrow> bool" where
  "isArrayCell (Object ps) = False"
| "isArrayCell (Array es ps) = True"

text \<open>\<^verbatim>\<open>o[k] = v\<close> on the object itself: an existing property keeps its place.\<close>

fun assign :: "string \<Rightarrow> val \<Rightarrow> cell \<Rightarrow> cell" where
  "assign k v (Object ps) = Object (AList.update k v ps)"
| "assign k v (Array es ps) = Array es (AList.update k v ps)"

text \<open>Truthiness and \<^verbatim>\<open>v == null\<close>: a reference is an object, which is truthy.\<close>

fun truthy_ref :: "val \<Rightarrow> bool" where
  "truthy_ref VUndefined = False"
| "truthy_ref VNull = False"
| "truthy_ref (VBool b) = b"
| "truthy_ref (VNum n) = (n \<noteq> 0)"
| "truthy_ref (VStr s) = (s \<noteq> [])"
| "truthy_ref (VRef a) = True"

fun nullish_ref :: "val \<Rightarrow> bool" where
  "nullish_ref VUndefined = True"
| "nullish_ref VNull = True"
| "nullish_ref v = False"

definition lookup_ref :: "(string \<times> val) list \<Rightarrow> string \<Rightarrow> val" where
  "lookup_ref ps k = (case map_of ps k of None \<Rightarrow> VUndefined | Some v \<Rightarrow> v)"

text \<open>
  \<^verbatim>\<open>o[k]\<close>, \<^verbatim>\<open>o?.[k]\<close> and a chain of optional reads, for the identifier keys the module
  reads, as in the value model; the property of an object is read from the store.
\<close>

fun getProp_ref :: "store \<Rightarrow> val \<Rightarrow> string \<Rightarrow> error + val" where
  "getProp_ref s VUndefined k = Inl TypeError"
| "getProp_ref s VNull k = Inl TypeError"
| "getProp_ref s (VRef a) k = Inr (lookup_ref (named (cell_of s a)) k)"
| "getProp_ref s v k = Inr VUndefined"

definition optProp_ref :: "store \<Rightarrow> val \<Rightarrow> string \<Rightarrow> val" where
  "optProp_ref s v k = (case getProp_ref s v k of Inl e \<Rightarrow> VUndefined | Inr x \<Rightarrow> x)"

fun getPath_ref :: "store \<Rightarrow> val \<Rightarrow> string list \<Rightarrow> val" where
  "getPath_ref s v [] = v"
| "getPath_ref s v (k # ks) = getPath_ref s (optProp_ref s v k) ks"

text \<open>
  The own enumerable properties that \<^verbatim>\<open>{...v}\<close> copies. The copy is shallow: a property
  that holds a reference is copied as that reference.
\<close>

definition indexed_ref :: "val list \<Rightarrow> (string \<times> val) list" where
  "indexed_ref es = map (\<lambda>i. (decimal i, es ! i)) [0 ..< length es]"

fun ownProps_ref :: "store \<Rightarrow> val \<Rightarrow> (string \<times> val) list" where
  "ownProps_ref s (VRef a) = (case cell_of s a of Object ps \<Rightarrow> ps | Array es ps \<Rightarrow> indexed_ref es @ ps)"
| "ownProps_ref s (VStr t) = indexed_ref (map (\<lambda>c. VStr [c]) t)"
| "ownProps_ref s v = []"

subsection \<open>Statements that read and write the store\<close>

text \<open>
  A statement runs on a store and ends in a result or a \<^verbatim>\<open>throw\<close>, leaving the store as
  it is at that moment: what was written before a \<^verbatim>\<open>throw\<close> stays written.
\<close>

type_synonym 'a action = "store \<Rightarrow> (error + 'a) \<times> store"

definition returnS :: "'a \<Rightarrow> 'a action" where
  "returnS x s = (Inr x, s)"

definition bindS :: "'a action \<Rightarrow> ('a \<Rightarrow> 'b action) \<Rightarrow> 'b action" where
  "bindS m f s = (case m s of (Inl e, s') \<Rightarrow> (Inl e, s') | (Inr x, s') \<Rightarrow> f x s')"

text \<open>An expression that reads the store and writes nothing.\<close>

definition readS :: "(store \<Rightarrow> error + 'a) \<Rightarrow> 'a action" where
  "readS f s = (f s, s)"

text \<open>An object or array literal: a new cell at the end of the store.\<close>

definition alloc :: "cell \<Rightarrow> val action" where
  "alloc c s = (Inr (VRef (length s)), s @ [c])"

text \<open>
  \<^verbatim>\<open>obj[k] = v\<close> in strict mode: the object behind the reference is updated in place, so
  the write shows through every path that leads to it; assigning to a primitive (or to
  undefined or null) throws.
\<close>

definition setProp_ref :: "val \<Rightarrow> string \<Rightarrow> val \<Rightarrow> unit action" where
  "setProp_ref obj k v s =
     (case obj of VRef a \<Rightarrow> (Inr (), s[a := assign k v (cell_of s a)]) | _ \<Rightarrow> (Inl TypeError, s))"

text \<open>\<^verbatim>\<open>arr.push(x)\<close>: only an array has the method.\<close>

definition push_ref :: "val \<Rightarrow> val \<Rightarrow> unit action" where
  "push_ref arr x s =
     (case arr of
        VRef a \<Rightarrow> (case cell_of s a of
                     Array es ps \<Rightarrow> (Inr (), s[a := Array (es @ [x]) ps])
                   | Object ps \<Rightarrow> (Inl TypeError, s))
      | _ \<Rightarrow> (Inl TypeError, s))"

subsection \<open>\<^verbatim>\<open>insertInstrumentationOptions\<close> on the store\<close>

text \<open>\<^verbatim>\<open>x[0]\<close>, the callback of \<^verbatim>\<open>some\<close> and the guard, as in the value model.\<close>

fun index0_ref :: "store \<Rightarrow> val \<Rightarrow> error + val" where
  "index0_ref s VUndefined = Inl TypeError"
| "index0_ref s VNull = Inl TypeError"
| "index0_ref s (VStr t) = Inr (case t of [] \<Rightarrow> VUndefined | c # _ \<Rightarrow> VStr [c])"
| "index0_ref s (VRef a) =
     Inr (case cell_of s a of
            Array es ps \<Rightarrow> (case es of [] \<Rightarrow> VUndefined | e # _ \<Rightarrow> e)
          | Object ps \<Rightarrow> lookup_ref ps ''0'')"
| "index0_ref s v = Inr VUndefined"

fun some_coverage_ref :: "store \<Rightarrow> val list \<Rightarrow> error + bool" where
  "some_coverage_ref s [] = Inr False"
| "some_coverage_ref s (x # xs) =
     bindE (index0_ref s x) (\<lambda>id. if id = VStr coverage_plugin then Inr True else some_coverage_ref s xs)"

definition isArray_ref :: "store \<Rightarrow> val \<Rightarrow> bool" where
  "isArray_ref s v = (case v of VRef a \<Rightarrow> isArrayCell (cell_of s a) | _ \<Rightarrow> False)"

definition already_inserted_ref :: "store \<Rightarrow> val \<Rightarrow> error + bool" where
  "already_inserted_ref s swcTransformOpts =
     (let plugins = getPath_ref s swcTransformOpts [''jsc'', ''experimental'', ''plugins'']
      in if nullish_ref plugins then Inr False
         else (case plugins of
                 VRef a \<Rightarrow> (case cell_of s a of
                              Array es ps \<Rightarrow> some_coverage_ref s es
                            | Object ps \<Rightarrow> Inl TypeError)
               | _ \<Rightarrow> Inl TypeError))"

text \<open>
  The four statements after the guard, each as the source writes it: every one walks from
  \<^verbatim>\<open>swcTransformOpts\<close> again, and the right-hand side is evaluated before the assignment
  is made.

  \<^verbatim>\<open>if (!swcTransformOpts.jsc) swcTransformOpts.jsc = {}\<close>
\<close>

definition create_jsc :: "val \<Rightarrow> unit action" where
  "create_jsc swcTransformOpts =
     bindS (readS (\<lambda>s. getProp_ref s swcTransformOpts ''jsc'')) (\<lambda>jsc.
     if \<not> truthy_ref jsc
     then bindS (alloc (Object [])) (\<lambda>fresh. setProp_ref swcTransformOpts ''jsc'' fresh)
     else returnS ())"

text \<open>\<^verbatim>\<open>if (!swcTransformOpts.jsc.experimental) swcTransformOpts.jsc.experimental = {}\<close>\<close>

definition create_experimental :: "val \<Rightarrow> unit action" where
  "create_experimental swcTransformOpts =
     bindS (readS (\<lambda>s. getProp_ref s swcTransformOpts ''jsc'')) (\<lambda>jsc.
     bindS (readS (\<lambda>s. getProp_ref s jsc ''experimental'')) (\<lambda>experimental.
     if \<not> truthy_ref experimental
     then bindS (alloc (Object [])) (\<lambda>fresh. setProp_ref jsc ''experimental'' fresh)
     else returnS ()))"

text \<open>
  \<^verbatim>\<open>if (!Array.isArray(swcTransformOpts.jsc.experimental.plugins))\<close>
  \<^verbatim>\<open>swcTransformOpts.jsc.experimental.plugins = []\<close>
\<close>

definition create_plugins :: "val \<Rightarrow> unit action" where
  "create_plugins swcTransformOpts =
     bindS (readS (\<lambda>s. getProp_ref s swcTransformOpts ''jsc'')) (\<lambda>jsc.
     bindS (readS (\<lambda>s. getProp_ref s jsc ''experimental'')) (\<lambda>experimental.
     bindS (readS (\<lambda>s. getProp_ref s experimental ''plugins'')) (\<lambda>plugins.
     bindS (readS (\<lambda>s. Inr (isArray_ref s plugins))) (\<lambda>isArr.
     if \<not> isArr
     then bindS (alloc (Array [] [])) (\<lambda>fresh. setProp_ref experimental ''plugins'' fresh)
     else returnS ()))))"

text \<open>
  \<^verbatim>\<open>swcTransformOpts.jsc.experimental.plugins?.push(['swc-plugin-coverage-instrument',\<close>
  \<^verbatim>\<open>instrumentOptions ?? {}])\<close>: nothing is evaluated when the list is undefined or null;
  the descriptor is a new array whose second element is the instrumentation options
  object itself, or a new empty object.
\<close>

definition push_descriptor :: "val \<Rightarrow> val \<Rightarrow> unit action" where
  "push_descriptor swcTransformOpts instrumentOpts =
     bindS (readS (\<lambda>s. getProp_ref s swcTransformOpts ''jsc'')) (\<lambda>jsc.
     bindS (readS (\<lambda>s. getProp_ref s jsc ''experimental'')) (\<lambda>experimental.
     bindS (readS (\<lambda>s. getProp_ref s experimental ''plugins'')) (\<lambda>plugins.
     if nullish_ref plugins then returnS ()
     else bindS (if nullish_ref instrumentOpts then alloc (Object []) else returnS instrumentOpts) (\<lambda>opts.
          bindS (alloc (Array [VStr coverage_plugin, opts] [])) (\<lambda>descriptor.
          push_ref plugins descriptor)))))"

definition insertInstrumentationOptions_ref :: "TransformOptions \<Rightarrow> bool \<Rightarrow> val \<Rightarrow> val \<Rightarrow> unit action" where
  "insertInstrumentationOptions_ref jestOptions canInstr swcTransformOpts instrumentOpts =
     (let shouldInstrument = instrument jestOptions \<and> canInstr
      in if \<not> shouldInstrument then returnS ()
         else bindS (readS (\<lambda>s. already_inserted_ref s swcTransformOpts)) (\<lambda>found.
           if found then returnS ()
           else bindS (create_jsc swcTransformOpts) (\<lambda>_.
                bindS (create_experimental swcTransformOpts) (\<lambda>_.
                bindS (create_plugins swcTransformOpts) (\<lambda>_.
                push_descriptor swcTransformOpts instrumentOpts)))))"

subsection \<open>The transform operations on the store\<close>

text \<open>
  \<^verbatim>\<open>{ ...computedSwcOptions, module: { ...computedSwcOptions.module, type }, filename }\<close>:
  two new objects. Nothing is written between the reads, so the order in which the two
  literals are made shows in the addresses only.
\<close>

definition overlay_ref :: "val \<Rightarrow> string \<Rightarrow> string \<Rightarrow> val action" where
  "overlay_ref opts moduleType filename =
     bindS (readS (\<lambda>s. getProp_ref s opts ''module'')) (\<lambda>m.
     bindS (readS (\<lambda>s. Inr (ownProps_ref s m))) (\<lambda>mps.
     bindS (alloc (Object (AList.update ''type'' (VStr moduleType) mps))) (\<lambda>module.
     bindS (readS (\<lambda>s. Inr (ownProps_ref s opts))) (\<lambda>ps.
     alloc (Object (AList.update ''filename'' (VStr filename) (AList.update ''module'' module ps)))))))"

datatype swc_call_ref = TransformSync_ref string val | Transform_ref string val

text \<open>
  What the closure holds of the store: the flag, the reference to the shared options and
  the reference to the instrumentation options. (The key function has no part in the
  transform operations.) The references never change; the objects behind them do.
\<close>

record Transformer_ref =
  canInstrument_ref :: bool
  computedSwcOptions_ref :: val
  instrumentOptions_ref :: val

text \<open>
  As in the value model an operation ends in the call it delegates to, and the compiler
  is taken not to write to the objects it can reach.
\<close>

definition process_ref :: "Transformer_ref \<Rightarrow> string \<Rightarrow> string \<Rightarrow> TransformOptions \<Rightarrow> swc_call_ref action" where
  "process_ref t src filename jestOptions =
     bindS (insertInstrumentationOptions_ref jestOptions (canInstrument_ref t) (computedSwcOptions_ref t)
              (instrumentOptions_ref t)) (\<lambda>_.
     bindS (overlay_ref (computedSwcOptions_ref t)
              (if supportsStaticESM jestOptions then ''es6'' else ''commonjs'') filename) (\<lambda>ov.
     returnS (TransformSync_ref src ov)))"

definition processAsync_ref :: "Transformer_ref \<Rightarrow> string \<Rightarrow> string \<Rightarrow> TransformOptions \<Rightarrow> swc_call_ref action" where
  "processAsync_ref t src filename jestOptions =
     bindS (insertInstrumentationOptions_ref jestOptions (canInstrument_ref t) (computedSwcOptions_ref t)
              (instrumentOptions_ref t)) (\<lambda>_.
     bindS (overlay_ref (computedSwcOptions_ref t) ''es6'' filename) (\<lambda>ov.
     returnS (Transform_ref src ov)))"

fun perform_ref :: "Transformer_ref \<Rightarrow> call \<Rightarrow> swc_call_ref action" where
  "perform_ref t (Process src filename jestOptions) = process_ref t src filename jestOptions"
| "perform_ref t (ProcessAsync src filename jestOptions) = processAsync_ref t src filename jestOptions"

text \<open>The store after a call, whether the call returned or threw, and after a sequence of calls.\<close>

definition after_ref :: "Transformer_ref \<Rightarrow> store \<Rightarrow> call \<Rightarrow> store" where
  "after_ref t s c = snd (perform_ref t c s)"

definition run_ref :: "Transformer_ref \<Rightarrow> call list \<Rightarrow> store \<Rightarrow> store" where
  "run_ref t cs s = foldl (after_ref t) s cs"

fun call_options_ref :: "swc_call_ref \<Rightarrow> val" where
  "call_options_ref (TransformSync_ref src opts) = opts"
| "call_options_ref (Transform_ref src opts) = opts"

text \<open>
  The value a reference stands for, unfolded to the given depth: the reading of the store
  in the value model. (It is used to compare the two models on concrete runs.)
\<close>

fun tree_of :: "nat \<Rightarrow> store \<Rightarrow> val \<Rightarrow> jsv" where
  "tree_of n s VUndefined = JUndefined"
| "tree_of n s VNull = JNull"
| "tree_of n s (VBool b) = JBool b"
| "tree_of n s (VNum i) = JNum i"
| "tree_of n s (VStr t) = JStr t"
| "tree_of 0 s (VRef a) = JUndefined"
| "tree_of (Suc n) s (VRef a) =
     (case cell_of s a of
        Object ps \<Rightarrow> JObj (map (\<lambda>p. (fst p, tree_of n s (snd p))) ps)
      | Array es ps \<Rightarrow> JArr (map (tree_of n s) es) (map (\<lambda>p. (fst p, tree_of n s (snd p))) ps))"

section \<open>Observations on the shared options\<close>

text \<open>
  The elements of \<^verbatim>\<open>jsc.experimental.plugins\<close> (none when there is no array there), the
  test the guard applies to an element, and the number of elements that pass it.
\<close>

definition plugin_list :: "jsv \<Rightarrow> jsv list" where
  "plugin_list opts =
     (case getPath opts [''jsc'', ''experimental'', ''plugins''] of JArr es ps \<Rightarrow> es | _ \<Rightarrow> [])"

definition is_coverage :: "jsv \<Rightarrow> bool" where
  "is_coverage x = (index0 x = Inr (JStr coverage_plugin))"

definition coverage_count :: "jsv \<Rightarrow> nat" where
  "coverage_count opts = length (filter is_coverage (plugin_list opts))"

section \<open>Relations used in the statements and proofs\<close>

text \<open>An operation returns rather than throws.\<close>

definition returns :: "error + 'a \<Rightarrow> bool" where
  "returns m = (case m of Inl e \<Rightarrow> False | Inr x \<Rightarrow> True)"

text \<open>An operation whose only way to throw is a TypeError.\<close>

definition only_TypeError :: "error + 'a \<Rightarrow> bool" where
  "only_TypeError m \<longleftrightarrow> (\<forall>e. m = Inl e \<longrightarrow> e = TypeError)"

text \<open>
  Values a property can be assigned on, and the condition under which \<^verbatim>\<open>set\<close> can walk a
  list of parent properties: every value it steps onto is an object or array, or is
  undefined or null and gets replaced by a fresh object.
\<close>

fun isObject :: "jsv \<Rightarrow> bool" where
  "isObject (JObj ps) = True"
| "isObject (JArr es ps) = True"
| "isObject v = False"

fun isString :: "jsv \<Rightarrow> bool" where
  "isString (JStr s) = True"
| "isString v = False"

fun walkable :: "jsv \<Rightarrow> string list \<Rightarrow> bool" where
  "walkable obj [] = isObject obj"
| "walkable obj (prop # props) =
     (isObject obj \<and> (nullish (optProp obj prop) \<or> walkable (optProp obj prop) props))"

text \<open>
  Setup options of the shape the declared type gives them where the resolver assigns:
  \<^verbatim>\<open>jsc\<close>, \<^verbatim>\<open>jsc.transform\<close> and \<^verbatim>\<open>jsc.transform.hidden\<close> are objects when present, and
  \<^verbatim>\<open>jsc.baseUrl\<close> is a string when it is truthy.
\<close>

definition typed_options :: "jsv \<Rightarrow> bool" where
  "typed_options given \<longleftrightarrow>
     \<not> nullish given \<and>
     (nullish (getPath given [''jsc'']) \<or> isObject (getPath given [''jsc''])) \<and>
     (nullish (getPath given [''jsc'', ''transform'']) \<or> isObject (getPath given [''jsc'', ''transform''])) \<and>
     (nullish (getPath given [''jsc'', ''transform'', ''hidden''])
        \<or> isObject (getPath given [''jsc'', ''transform'', ''hidden''])) \<and>
     (truthy (getPath given [''jsc'', ''baseUrl'']) \<longrightarrow> isString (getPath given [''jsc'', ''baseUrl'']))"

text \<open>The assignment on an object or array, as a total function (used in proofs).\<close>

fun put :: "jsv \<Rightarrow> string \<Rightarrow> jsv \<Rightarrow> jsv" where
  "put (JObj ps) k v = JObj (AList.update k v ps)"
| "put (JArr es ps) k v = JArr es (AList.update k v ps)"
| "put u k v = u"

text \<open>
  A plugin list of the shape the declared type gives it: absent, or an array none of whose
  elements is undefined or null. Shared options on which the injector cannot throw, and
  setup options that lead to such shared options.
\<close>

definition descriptors :: "jsv \<Rightarrow> bool" where
  "descriptors plugins \<longleftrightarrow>
     nullish plugins \<or> (case plugins of JArr es ps \<Rightarrow> \<forall>x \<in> set es. \<not> nullish x | _ \<Rightarrow> False)"

definition instrumentable :: "jsv \<Rightarrow> bool" where
  "instrumentable opts \<longleftrightarrow>
     isObject opts \<and>
     (\<not> truthy (getPath opts [''jsc'']) \<or> isObject (getPath opts [''jsc''])) \<and>
     (\<not> truthy (getPath opts [''jsc'', ''experimental''])
        \<or> isObject (getPath opts [''jsc'', ''experimental''])) \<and>
     descriptors (getPath opts [''jsc'', ''experimental'', ''plugins''])"

definition typed_plugins :: "jsv \<Rightarrow> bool" where
  "typed_plugins given \<longleftrightarrow>
     (\<not> truthy (getPath given [''jsc'', ''experimental''])
        \<or> isObject (getPath given [''jsc'', ''experimental''])) \<and>
     descriptors (getPath given [''jsc'', ''experimental'', ''plugins''])"

text \<open>
  On the store: a value that is a primitive or refers to an object of the store, and the
  own property of a value as a spread copies it.
\<close>

fun in_store :: "store \<Rightarrow> val \<Rightarrow> bool" where
  "in_store s (VRef a) = (a < length s)"
| "in_store s v = True"

definition ownProp_ref :: "store \<Rightarrow> val \<Rightarrow> string \<Rightarrow> val" where
  "ownProp_ref s v k = lookup_ref (ownProps_ref s v) k"

text \<open>
  The three links on the way from the shared options to the plugin list: the property
  \<open>k\<close> of the object at address \<open>a\<close> is \<^verbatim>\<open>jsc\<close> of the shared options, \<^verbatim>\<open>experimental\<close> of the
  object at \<^verbatim>\<open>jsc\<close>, or \<^verbatim>\<open>plugins\<close> of the object at \<^verbatim>\<open>jsc.experimental\<close>.
\<close>

definition container :: "val \<Rightarrow> store \<Rightarrow> nat \<Rightarrow> string \<Rightarrow> bool" where
  "container opts s a k \<longleftrightarrow>
     (k = ''jsc'' \<and> opts = VRef a) \<or>
     (k = ''experimental'' \<and> getPath_ref s opts [''jsc''] = VRef a) \<or>
     (k = ''plugins'' \<and> getPath_ref s opts [''jsc'', ''experimental''] = VRef a)"

text \<open>
  How a store can differ between two moments of an instance's life. It has grown; of the
  objects it held, none became an array or ceased to be one, a named property differs
  only where it is one of the three links, and elements differ only in the array at
  \<^verbatim>\<open>jsc.experimental.plugins\<close>, which holds its former elements followed by coverage
  descriptors. A link that held an object, and a plugin list that was an array, are the
  same as before.
\<close>

definition accumulates :: "val \<Rightarrow> store \<Rightarrow> store \<Rightarrow> bool" where
  "accumulates opts s s' \<longleftrightarrow>
     length s \<le> length s' \<and>
     (\<forall>a<length s. isArrayCell (s' ! a) = isArrayCell (s ! a)) \<and>
     (\<forall>a<length s. \<forall>k. lookup_ref (named (s' ! a)) k \<noteq> lookup_ref (named (s ! a)) k \<longrightarrow> container opts s' a k) \<and>
     (\<forall>a<length s. \<exists>new. elements (s' ! a) = elements (s ! a) @ new \<and>
        (\<forall>x \<in> set new. index0_ref s' x = Inr (VStr coverage_plugin)) \<and>
        (new \<noteq> [] \<longrightarrow> getPath_ref s' opts [''jsc'', ''experimental'', ''plugins''] = VRef a)) \<and>
     (truthy_ref (getPath_ref s opts [''jsc'']) \<longrightarrow>
        getPath_ref s' opts [''jsc''] = getPath_ref s opts [''jsc'']) \<and>
     (truthy_ref (getPath_ref s opts [''jsc'', ''experimental'']) \<longrightarrow>
        getPath_ref s' opts [''jsc'', ''experimental''] = getPath_ref s opts [''jsc'', ''experimental'']) \<and>
     (isArray_ref s (getPath_ref s opts [''jsc'', ''experimental'', ''plugins'']) \<longrightarrow>
        getPath_ref s' opts [''jsc'', ''experimental'', ''plugins'']
          = getPath_ref s opts [''jsc'', ''experimental'', ''plugins''])"

text \<open>A statement that changes the store in this way only, however it ends.\<close>

definition keeps :: "val \<Rightarrow> 'a action \<Rightarrow> bool" where
  "keeps opts m \<longleftrightarrow> (\<forall>s r s'. in_store s opts \<longrightarrow> m s = (r, s') \<longrightarrow> accumulates opts s s')"

text \<open>
  Shared options on which the injector cannot throw, on the store: as \<open>instrumentable\<close>,
  with objects that are in the store.
\<close>

fun isObject_ref :: "store \<Rightarrow> val \<Rightarrow> bool" where
  "isObject_ref s (VRef a) = (a < length s)"
| "isObject_ref s v = False"

definition descriptors_ref :: "store \<Rightarrow> val \<Rightarrow> bool" where
  "descriptors_ref s plugins \<longleftrightarrow>
     nullish_ref plugins \<or>
     (case plugins of
        VRef a \<Rightarrow> (case cell_of s a of
                     Array es ps \<Rightarrow> (\<forall>x \<in> set es. \<not> nullish_ref x)
                   | Object ps \<Rightarrow> False)
      | _ \<Rightarrow> False)"

definition instrumentable_ref :: "store \<Rightarrow> val \<Rightarrow> bool" where
  "instrumentable_ref s opts \<longleftrightarrow>
     isObject_ref s opts \<and>
     (\<not> truthy_ref (getPath_ref s opts [''jsc'']) \<or> isObject_ref s (getPath_ref s opts [''jsc''])) \<and>
     (\<not> truthy_ref (getPath_ref s opts [''jsc'', ''experimental''])
        \<or> isObject_ref s (getPath_ref s opts [''jsc'', ''experimental''])) \<and>
     descriptors_ref s (getPath_ref s opts [''jsc'', ''experimental'', ''plugins''])"

section \<open>A host for concrete runs\<close>

text \<open>
  A host in which no \<^verbatim>\<open>.swcrc\<close> exists. Its key function concatenates the values with the
  source and the file name, and its digest is a stand-in that keeps the last sixteen
  bytes of the message; both are there to run the module on concrete inputs only.
\<close>

definition example_host :: host where
  "example_host =
     \<lparr> cwd = ''/work'',
       path_join = (\<lambda>a b. a @ ''/'' @ b),
       path_resolve = (\<lambda>p. ''/work/'' @ p),
       fs = (\<lambda>p. Absent),
       parseJsonC = (\<lambda>t. (JUndefined, [])),
       swcVersion = ''1.3.100'',
       getCacheKeyFunction = (\<lambda>files values src filename rest. concat values @ src @ filename),
       md5 = (\<lambda>s. map (\<lambda>c. of_nat (of_char c)) (drop (length s - 16) s)) \<rparr>"

text \<open>
  The same host with a \<^verbatim>\<open>.swcrc\<close> that holds an opening brace and nothing else; the parser
  returns the empty object and reports one error (a closing brace expected, at offset 1).
\<close>

definition broken_host :: host where
  "broken_host =
     example_host
       \<lparr> fs := (\<lambda>p. if p = ''/work/.swcrc'' then Content ''{'' else Absent),
         parseJsonC := (\<lambda>t. (JObj [], [\<lparr> pe_error = 7, pe_offset = 1, pe_length = 0 \<rparr>])) \<rparr>"

text \<open>
  The same host with a \<^verbatim>\<open>.swcrc\<close> that is well-formed but for a comma before its closing
  brace. Called as the module calls it, without the option \<^verbatim>\<open>allowTrailingComma\<close>, the
  parser returns the object and reports two errors at the closing brace (a property name
  expected, a value expected).
\<close>

definition trailing_comma_host :: host where
  "trailing_comma_host =
     example_host
       \<lparr> fs := (\<lambda>p. if p = ''/work/.swcrc'' then Content (''{'' @ [CHR 0x22] @ ''sourceMaps'' @ [CHR 0x22] @ '': true,}'')
                    else Absent),
         parseJsonC := (\<lambda>t. (JObj [(''sourceMaps'', JBool True)],
                               [\<lparr> pe_error = 3, pe_offset = 20, pe_length = 1 \<rparr>,
                                \<lparr> pe_error = 4, pe_offset = 20, pe_length = 1 \<rparr>])) \<rparr>"

text \<open>Call contexts.\<close>

definition with_coverage :: TransformOptions where
  "with_coverage = \<lparr> instrument = True, supportsStaticESM = False \<rparr>"

definition without_coverage :: TransformOptions where
  "without_coverage = \<lparr> instrument = False, supportsStaticESM = True \<rparr>"

text \<open>
  Options that enable the module's own instrumentation and ask for commonJS modules, and
  the instance \<^verbatim>\<open>createTransformer\<close> makes of them.
\<close>

definition coverage_options :: jsv where
  "coverage_options =
     JObj [(''module'', JObj [(''type'', JStr ''commonjs'')]),
           (''experimental'',
            JObj [(''customCoverageInstrumentation'',
                   JObj [(''enabled'', JBool True), (''compact'', JBool False)])])]"

definition coverage_resolved :: jsv where
  "coverage_resolved =
     JObj [(''module'', JObj [(''type'', JStr ''commonjs'')]),
           (''jsc'', JObj [(''target'', JStr ''es2016''),
                           (''transform'', JObj [(''hidden'', JObj [(''jest'', JBool True)])])]),
           (''sourceMaps'', JStr ''inline'')]"

definition coverage_instance :: Transformer where
  "coverage_instance =
     \<lparr> canInstrument = True,
       computedSwcOptions = coverage_resolved,
       instrumentOptions = JObj [(''compact'', JBool False)],
       cacheKeyFunction =
         getCacheKeyFunction example_host [] [swcVersion example_host, version, json coverage_resolved] \<rparr>"

text \<open>The shared options of that instance once a call has inserted the descriptor.\<close>

definition coverage_instrumented :: jsv where
  "coverage_instrumented =
     JObj [(''module'', JObj [(''type'', JStr ''commonjs'')]),
           (''jsc'', JObj [(''target'', JStr ''es2016''),
                           (''transform'', JObj [(''hidden'', JObj [(''jest'', JBool True)])]),
                           (''experimental'',
                            JObj [(''plugins'',
                                   JArr [JArr [JStr ''swc-plugin-coverage-instrument'',
                                               JObj [(''compact'', JBool False)]] []] [])])]),
           (''sourceMaps'', JStr ''inline'')]"

text \<open>
  Options that list the coverage plugin twice themselves, and the instance made of them.
\<close>

definition duplicate_options :: jsv where
  "duplicate_options =
     JObj [(''jsc'',
            JObj [(''experimental'',
                   JObj [(''plugins'',
                          JArr [JArr [JStr ''swc-plugin-coverage-instrument'', JObj []] [],
                                JArr [JStr ''swc-plugin-coverage-instrument'', JObj []] []] [])])]),
           (''experimental'',
            JObj [(''customCoverageInstrumentation'', JObj [(''enabled'', JBool True)])])]"

definition duplicate_resolved :: jsv where
  "duplicate_resolved =
     JObj [(''jsc'',
            JObj [(''experimental'',
                   JObj [(''plugins'',
                          JArr [JArr [JStr ''swc-plugin-coverage-instrument'', JObj []] [],
                                JArr [JStr ''swc-plugin-coverage-instrument'', JObj []] []] [])]),
                  (''target'', JStr ''es2016''),
                  (''transform'', JObj [(''hidden'', JObj [(''jest'', JBool True)])])]),
           (''sourceMaps'', JStr ''inline'')]"

definition duplicate_instance :: Transformer where
  "duplicate_instance =
     \<lparr> canInstrument = True,
       computedSwcOptions = duplicate_resolved,
       instrumentOptions = JObj [],
       cacheKeyFunction =
         getCacheKeyFunction example_host [] [swcVersion example_host, version, json duplicate_resolved] \<rparr>"

text \<open>
  The instance above on a store in which every object is reachable along one path only.
\<close>

definition coverage_store :: store where
  "coverage_store =
     [Object [(''module'', VRef 1), (''jsc'', VRef 2), (''sourceMaps'', VStr ''inline'')],
      Object [(''type'', VStr ''commonjs'')],
      Object [(''target'', VStr ''es2016''), (''transform'', VRef 3)],
      Object [(''hidden'', VRef 4)],
      Object [(''jest'', VBool True)],
      Object [(''compact'', VBool False)]]"

definition coverage_instance_ref :: Transformer_ref where
  "coverage_instance_ref =
     \<lparr> canInstrument_ref = True, computedSwcOptions_ref = VRef 0, instrumentOptions_ref = VRef 5 \<rparr>"

text \<open>
  A store with sharing: the caller passed one object both as \<^verbatim>\<open>module\<close> and as
  \<^verbatim>\<open>jsc.experimental\<close> (the object at address 1), and asked for minification. The store
  after one call that requests coverage, for the module type and file name of the call:
  the plugin list was created in the shared object, so it shows at \<^verbatim>\<open>module\<close> too; and the
  store after a second call.
\<close>

definition esm_coverage :: TransformOptions where
  "esm_coverage = \<lparr> instrument = True, supportsStaticESM = True \<rparr>"

definition alias_store :: store where
  "alias_store =
     [Object [(''minify'', VBool True), (''module'', VRef 1), (''jsc'', VRef 2), (''sourceMaps'', VStr ''inline'')],
      Object [(''type'', VStr ''commonjs''), (''strict'', VBool True)],
      Object [(''target'', VStr ''es2016''), (''experimental'', VRef 1)],
      Object [(''compact'', VBool False)]]"

definition alias_instance :: Transformer_ref where
  "alias_instance =
     \<lparr> canInstrument_ref = True, computedSwcOptions_ref = VRef 0, instrumentOptions_ref = VRef 3 \<rparr>"

definition alias_called :: "string \<Rightarrow> string \<Rightarrow> store" where
  "alias_called moduleType filename =
     [Object [(''minify'', VBool True), (''module'', VRef 1), (''jsc'', VRef 2), (''sourceMaps'', VStr ''inline'')],
      Object [(''type'', VStr ''commonjs''), (''strict'', VBool True), (''plugins'', VRef 4)],
      Object [(''target'', VStr ''es2016''), (''experimental'', VRef 1)],
      Object [(''compact'', VBool False)],
      Array [VRef 5] [],
      Array [VStr ''swc-plugin-coverage-instrument'', VRef 3] [],
      Object [(''type'', VStr moduleType), (''strict'', VBool True), (''plugins'', VRef 4)],
      Object [(''minify'', VBool True), (''module'', VRef 6), (''jsc'', VRef 2), (''sourceMaps'', VStr ''inline''),
              (''filename'', VStr filename)]]"






section \<open>Properties of the value operations\<close>

lemma lookup_update: "lookup (AList.update k v ps) k' = (if k' = k then v else lookup ps k')"
  by (simp add: lookup_def update_conv')

lemma lookup_delete: "lookup (AList.delete k ps) k' = (if k' = k then JUndefined else lookup ps k')"
  by (simp add: lookup_def delete_conv')

lemma bindE_Inr: "bindE m f = Inr y \<longleftrightarrow> (\<exists>x. m = Inr x \<and> f x = Inr y)"
  by (cases m) (simp_all add: bindE_def)

lemma bindE_Inl: "bindE m f = Inl e \<longleftrightarrow> (m = Inl e \<or> (\<exists>x. m = Inr x \<and> f x = Inl e))"
  by (cases m) (simp_all add: bindE_def)

lemma getProp_Inr: "getProp obj k = Inr v \<Longrightarrow> optProp obj k = v"
  by (simp add: optProp_def)

lemma getProp_Inl: "getProp obj k = Inl e \<Longrightarrow> e = TypeError"
  by (cases obj) auto

lemma setProp_Inl: "setProp obj k v = Inl e \<Longrightarrow> e = TypeError"
  by (cases obj) auto

lemma setProp_optProp:
  "setProp obj k v = Inr obj' \<Longrightarrow> optProp obj' k' = (if k' = k then v else optProp obj k')"
  by (cases obj) (auto simp: optProp_def lookup_update)

lemma optProp_nullish: "nullish v \<Longrightarrow> optProp v k = JUndefined"
  by (cases v) (simp_all add: optProp_def)

lemma getPath_undefined: "getPath JUndefined ks = JUndefined"
  by (induction ks) (simp_all add: optProp_def)

lemma getPath_JObj_Nil: "getPath (JObj []) ks = (if ks = [] then JObj [] else JUndefined)"
  by (cases ks) (simp_all add: optProp_def lookup_def getPath_undefined)

lemma set_loop_get:
  "set_loop obj ps key v = Inr obj' \<Longrightarrow> getPath obj' (ps @ [key]) = v"
proof (induction ps arbitrary: obj obj')
  case Nil
  then show ?case by (simp add: setProp_optProp)
next
  case (Cons p ps)
  then show ?case
    by (auto simp: bindE_Inr setProp_optProp)
qed

lemma getPath_nullish: "nullish v \<Longrightarrow> ks \<noteq> [] \<Longrightarrow> getPath v ks = JUndefined"
  by (cases ks) (simp_all add: optProp_nullish getPath_undefined)

lemma set_loop_frame:
  "set_loop obj ps key v = Inr obj' \<Longrightarrow> ps @ [key] = cs @ p # r \<Longrightarrow> q \<noteq> p
   \<Longrightarrow> getPath obj' (cs @ q # qs) = getPath obj (cs @ q # qs)"
proof (induction ps arbitrary: obj obj' cs)
  case Nil
  then show ?case by (cases cs) (auto simp: setProp_optProp)
next
  case (Cons a ps)
  from Cons.prems(1) obtain cur obj1 child child' where
    cur: "getProp obj a = Inr cur" and
    obj1: "(if nullish cur then setProp obj a (JObj []) else Inr obj) = Inr obj1" and
    child: "getProp obj1 a = Inr child" and
    rec: "set_loop child ps key v = Inr child'" and
    store: "setProp obj1 a child' = Inr obj'"
    by (auto simp: bindE_Inr)
  have obj1_other: "optProp obj1 k = optProp obj k" if "k \<noteq> a" for k
    using obj1 that by (auto simp: setProp_optProp split: if_splits)
  show ?case
  proof (cases cs)
    case Nil
    with Cons.prems have "q \<noteq> a" by simp
    with store obj1_other Nil show ?thesis by (simp add: setProp_optProp)
  next
    case (Cons c cs')
    with Cons.prems have c: "c = a" and tl: "ps @ [key] = cs' @ p # r" by simp_all
    have "getPath child' (cs' @ q # qs) = getPath child (cs' @ q # qs)"
      using Cons.IH [OF rec tl Cons.prems(3)] .
    moreover have "getPath child (cs' @ q # qs) = getPath (optProp obj a) (cs' @ q # qs)"
    proof (cases "nullish cur")
      case True
      with obj1 child have "child = JObj []"
        by (auto dest!: setProp_optProp [where k' = a] getProp_Inr)
      moreover from True cur have "nullish (optProp obj a)" by (simp add: getProp_Inr)
      ultimately show ?thesis by (simp add: getPath_nullish getPath_JObj_Nil)
    next
      case False
      with obj1 child cur show ?thesis by (auto dest!: getProp_Inr)
    qed
    ultimately show ?thesis using store c Cons by (simp add: setProp_optProp)
  qed
qed

declare set_loop.simps [simp del]

lemma set_js_paths:
  "set_js obj ''jsc.target'' v = set_loop obj [''jsc''] ''target'' v"
  "set_js obj ''jsc.transform.hidden.jest'' v = set_loop obj [''jsc'', ''transform'', ''hidden''] ''jest'' v"
  "set_js obj ''sourceMaps'' v = set_loop obj [] ''sourceMaps'' v"
  "set_js obj ''jsc.baseUrl'' v = set_loop obj [''jsc''] ''baseUrl'' v"
  by (simp_all add: set_js_def)

lemma frame_top:
  "set_loop obj ps key v = Inr obj' \<Longrightarrow> q \<noteq> hd (ps @ [key]) \<Longrightarrow> getPath obj' (q # qs) = getPath obj (q # qs)"
  using set_loop_frame [where cs = "[]" and p = "hd (ps @ [key])" and r = "tl (ps @ [key])" and q = q and qs = qs]
  by simp

lemma frame_second:
  "set_loop obj [a] key v = Inr obj' \<Longrightarrow> q \<noteq> key \<Longrightarrow> getPath obj' (a # q # qs) = getPath obj (a # q # qs)"
  using set_loop_frame [where cs = "[a]" and p = key and r = "[]" and q = q and qs = qs and ps = "[a]"]
  by simp

lemma build_steps:
  assumes "buildSwcTransformOpts h swcOptions = Inr opts"
  obtains given c0 c1 c2 c3 where
    "given_options h swcOptions = Inr given"
    "restWithout ''experimental'' given = Inr c0"
    "(if \<not> truthy (optProp c0 ''env'') \<and> \<not> truthy (optProp (optProp c0 ''jsc'') ''target'')
      then set_loop c0 [''jsc''] ''target'' (JStr ''es2016'') else Inr c0) = Inr c1"
    "set_loop c1 [''jsc'', ''transform'', ''hidden''] ''jest'' (JBool True) = Inr c2"
    "(if \<not> truthy (optProp c2 ''sourceMaps'')
      then set_loop c2 [] ''sourceMaps'' (JStr ''inline'') else Inr c2) = Inr c3"
    "(if truthy (optProp (optProp c3 ''jsc'') ''baseUrl'')
      then bindE (resolve_arg h (optProp (optProp c3 ''jsc'') ''baseUrl'')) (\<lambda>p.
           set_loop c3 [''jsc''] ''baseUrl'' p)
      else Inr c3) = Inr opts"
  using assms unfolding buildSwcTransformOpts_def given_options_def set_js_paths bindE_Inr
  by blast

lemma marker_set:
  assumes "buildSwcTransformOpts h swcOptions = Inr opts"
  shows "getPath opts [''jsc'', ''transform'', ''hidden'', ''jest''] = JBool True"
proof -
  from assms obtain given c0 c1 c2 c3 where
    c2: "set_loop c1 [''jsc'', ''transform'', ''hidden''] ''jest'' (JBool True) = Inr c2" and
    c3: "(if \<not> truthy (optProp c2 ''sourceMaps'')
      then set_loop c2 [] ''sourceMaps'' (JStr ''inline'') else Inr c2) = Inr c3" and
    opts: "(if truthy (optProp (optProp c3 ''jsc'') ''baseUrl'')
      then bindE (resolve_arg h (optProp (optProp c3 ''jsc'') ''baseUrl'')) (\<lambda>p.
           set_loop c3 [''jsc''] ''baseUrl'' p)
      else Inr c3) = Inr opts"
    by (rule build_steps)
  let ?m = "[''jsc'', ''transform'', ''hidden'', ''jest'']"
  have "getPath c2 ?m = JBool True" using set_loop_get [OF c2] by simp
  moreover have "getPath c3 ?m = getPath c2 ?m"
  proof (cases "truthy (optProp c2 ''sourceMaps'')")
    case True
    with c3 show ?thesis by simp
  next
    case False
    with c3 have "set_loop c2 [] ''sourceMaps'' (JStr ''inline'') = Inr c3" by simp
    from frame_top [OF this, of "''jsc''" "[''transform'', ''hidden'', ''jest'']"] show ?thesis by simp
  qed
  moreover have "getPath opts ?m = getPath c3 ?m"
  proof (cases "truthy (optProp (optProp c3 ''jsc'') ''baseUrl'')")
    case True
    with opts obtain p where "set_loop c3 [''jsc''] ''baseUrl'' p = Inr opts"
      by (auto simp: bindE_Inr)
    from frame_second [OF this, of "''transform''" "[''hidden'', ''jest'']"] show ?thesis by simp
  next
    case False
    with opts show ?thesis by simp
  qed
  ultimately show ?thesis by simp
qed

lemma digit_char_digit: "m < 10 \<Longrightarrow> digit_char m \<in> set ''0123456789''"
  unfolding digit_char_def by (rule nth_mem) simp

lemma decimal_digits: "set (decimal n) \<subseteq> set ''0123456789''"
proof (induction n rule: decimal.induct)
  case (1 n)
  show ?case
  proof (cases "n < 10")
    case True
    then show ?thesis using digit_char_digit [of n] by (subst decimal.simps) simp
  next
    case False
    have "digit_char (n mod 10) \<in> set ''0123456789''" by (rule digit_char_digit) simp
    with False 1 show ?thesis by (subst decimal.simps) simp
  qed
qed

lemma ident_not_decimal: "ident k \<Longrightarrow> k \<noteq> decimal n"
  using decimal_digits [of n] by (auto simp: ident_def)

lemma map_of_indexed: "ident k \<Longrightarrow> map_of (indexed es) k = None"
  by (auto simp: indexed_def map_of_eq_None_iff dest: ident_not_decimal)

lemma ownProps_lookup: "ident k \<Longrightarrow> lookup (ownProps v) k = optProp v k"
  by (cases v) (simp_all add: lookup_def optProp_def map_of_indexed map_add_def)

lemma restWithout_optProp:
  "restWithout x v = Inr c0 \<Longrightarrow> ident k \<Longrightarrow> k \<noteq> x \<Longrightarrow> optProp c0 k = optProp v k"
  by (auto simp: restWithout_def lookup_delete ownProps_lookup optProp_def [of "JObj _"] split: if_splits)

lemma ident_keys:
  "ident ''env''" "ident ''jsc''" "ident ''sourceMaps''" "ident ''module''"
  by (simp_all add: ident_def)

lemma frame_under:
  "set_loop obj (a # p # ps) key v = Inr obj' \<Longrightarrow> q \<noteq> p \<Longrightarrow> getPath obj' (a # q # qs) = getPath obj (a # q # qs)"
  using set_loop_frame [where cs = "[a]" and p = p and r = "ps @ [key]" and q = q and qs = qs and ps = "a # p # ps"]
  by simp

lemma sourceMaps_resolved:
  assumes "buildSwcTransformOpts h swcOptions = Inr opts" and "given_options h swcOptions = Inr given"
  shows "optProp opts ''sourceMaps'' =
           (if truthy (optProp given ''sourceMaps'') then optProp given ''sourceMaps'' else JStr ''inline'')"
proof -
  from assms obtain c0 c1 c2 c3 where
    c0: "restWithout ''experimental'' given = Inr c0" and
    c1: "(if \<not> truthy (optProp c0 ''env'') \<and> \<not> truthy (optProp (optProp c0 ''jsc'') ''target'')
      then set_loop c0 [''jsc''] ''target'' (JStr ''es2016'') else Inr c0) = Inr c1" and
    c2: "set_loop c1 [''jsc'', ''transform'', ''hidden''] ''jest'' (JBool True) = Inr c2" and
    c3: "(if \<not> truthy (optProp c2 ''sourceMaps'')
      then set_loop c2 [] ''sourceMaps'' (JStr ''inline'') else Inr c2) = Inr c3" and
    opts: "(if truthy (optProp (optProp c3 ''jsc'') ''baseUrl'')
      then bindE (resolve_arg h (optProp (optProp c3 ''jsc'') ''baseUrl'')) (\<lambda>p.
           set_loop c3 [''jsc''] ''baseUrl'' p)
      else Inr c3) = Inr opts"
    by (auto elim!: build_steps)
  have g0: "optProp c0 ''sourceMaps'' = optProp given ''sourceMaps''"
    using restWithout_optProp [OF c0] by (simp add: ident_keys)
  have g1: "optProp c1 ''sourceMaps'' = optProp c0 ''sourceMaps''"
  proof (cases "\<not> truthy (optProp c0 ''env'') \<and> \<not> truthy (optProp (optProp c0 ''jsc'') ''target'')")
    case True
    with c1 have "set_loop c0 [''jsc''] ''target'' (JStr ''es2016'') = Inr c1" by simp
    from frame_top [OF this, of "''sourceMaps''" "[]"] show ?thesis by simp
  next
    case False
    with c1 show ?thesis by auto
  qed
  have g2: "optProp c2 ''sourceMaps'' = optProp c1 ''sourceMaps''"
    using frame_top [OF c2, of "''sourceMaps''" "[]"] by simp
  have g3: "optProp c3 ''sourceMaps'' =
      (if truthy (optProp c2 ''sourceMaps'') then optProp c2 ''sourceMaps'' else JStr ''inline'')"
  proof (cases "truthy (optProp c2 ''sourceMaps'')")
    case True
    with c3 show ?thesis by simp
  next
    case False
    with c3 have "set_loop c2 [] ''sourceMaps'' (JStr ''inline'') = Inr c3" by simp
    from set_loop_get [OF this] False show ?thesis by simp
  qed
  have g4: "optProp opts ''sourceMaps'' = optProp c3 ''sourceMaps''"
  proof (cases "truthy (optProp (optProp c3 ''jsc'') ''baseUrl'')")
    case True
    with opts obtain p where "set_loop c3 [''jsc''] ''baseUrl'' p = Inr opts"
      by (auto simp: bindE_Inr)
    from frame_top [OF this, of "''sourceMaps''" "[]"] show ?thesis by simp
  next
    case False
    with opts show ?thesis by simp
  qed
  show ?thesis by (simp add: g0 g1 g2 g3 g4)
qed

lemma target_resolved:
  assumes "buildSwcTransformOpts h swcOptions = Inr opts" and "given_options h swcOptions = Inr given"
  shows "getPath opts [''jsc'', ''target''] =
           (if \<not> truthy (optProp given ''env'') \<and> \<not> truthy (getPath given [''jsc'', ''target''])
            then JStr ''es2016'' else getPath given [''jsc'', ''target''])"
proof -
  from assms obtain c0 c1 c2 c3 where
    c0: "restWithout ''experimental'' given = Inr c0" and
    c1: "(if \<not> truthy (optProp c0 ''env'') \<and> \<not> truthy (optProp (optProp c0 ''jsc'') ''target'')
      then set_loop c0 [''jsc''] ''target'' (JStr ''es2016'') else Inr c0) = Inr c1" and
    c2: "set_loop c1 [''jsc'', ''transform'', ''hidden''] ''jest'' (JBool True) = Inr c2" and
    c3: "(if \<not> truthy (optProp c2 ''sourceMaps'')
      then set_loop c2 [] ''sourceMaps'' (JStr ''inline'') else Inr c2) = Inr c3" and
    opts: "(if truthy (optProp (optProp c3 ''jsc'') ''baseUrl'')
      then bindE (resolve_arg h (optProp (optProp c3 ''jsc'') ''baseUrl'')) (\<lambda>p.
           set_loop c3 [''jsc''] ''baseUrl'' p)
      else Inr c3) = Inr opts"
    by (auto elim!: build_steps)
  let ?t = "[''jsc'', ''target'']"
  have e0: "optProp c0 ''env'' = optProp given ''env''"
    using restWithout_optProp [OF c0] by (simp add: ident_keys)
  have "optProp c0 ''jsc'' = optProp given ''jsc''"
    using restWithout_optProp [OF c0] by (simp add: ident_keys)
  then have g0: "getPath c0 ?t = getPath given ?t" by simp
  have g1: "getPath c1 ?t =
      (if \<not> truthy (optProp c0 ''env'') \<and> \<not> truthy (getPath c0 ?t) then JStr ''es2016'' else getPath c0 ?t)"
  proof (cases "\<not> truthy (optProp c0 ''env'') \<and> \<not> truthy (optProp (optProp c0 ''jsc'') ''target'')")
    case True
    with c1 have "set_loop c0 [''jsc''] ''target'' (JStr ''es2016'') = Inr c1" by simp
    from set_loop_get [OF this] True show ?thesis by simp
  next
    case False
    with c1 show ?thesis by auto
  qed
  have g2: "getPath c2 ?t = getPath c1 ?t"
    using frame_under [OF c2, of "''target''" "[]"] by simp
  have g3: "getPath c3 ?t = getPath c2 ?t"
  proof (cases "truthy (optProp c2 ''sourceMaps'')")
    case True
    with c3 show ?thesis by simp
  next
    case False
    with c3 have "set_loop c2 [] ''sourceMaps'' (JStr ''inline'') = Inr c3" by simp
    from frame_top [OF this, of "''jsc''" "[''target'']"] show ?thesis by simp
  qed
  have g4: "getPath opts ?t = getPath c3 ?t"
  proof (cases "truthy (optProp (optProp c3 ''jsc'') ''baseUrl'')")
    case True
    with opts obtain p where "set_loop c3 [''jsc''] ''baseUrl'' p = Inr opts"
      by (auto simp: bindE_Inr)
    from frame_second [OF this, of "''target''" "[]"] show ?thesis by simp
  next
    case False
    with opts show ?thesis by simp
  qed
  show ?thesis unfolding g4 g3 g2 g1 g0 e0 ..
qed

lemma some_coverage_False: "some_coverage es = Inr False \<Longrightarrow> filter is_coverage es = []"
  by (induction es) (auto simp: bindE_Inr is_coverage_def split: if_splits)

lemma some_coverage_True: "some_coverage es = Inr True \<Longrightarrow> filter is_coverage es \<noteq> []"
  by (induction es) (auto simp: bindE_Inr is_coverage_def split: if_splits)

lemma already_inserted_False: "already_inserted opts = Inr False \<Longrightarrow> coverage_count opts = 0"
  by (auto simp: already_inserted_def coverage_count_def plugin_list_def Let_def
      dest: some_coverage_False split: if_splits jsv.splits)

lemma already_inserted_True: "already_inserted opts = Inr True \<Longrightarrow> 0 < coverage_count opts"
  by (auto simp: already_inserted_def coverage_count_def plugin_list_def Let_def
      dest: some_coverage_True split: if_splits jsv.splits)

lemma falsy_optProp: "\<not> truthy v \<Longrightarrow> optProp v k = JUndefined"
  by (cases v) (simp_all add: optProp_def)

lemma optProp_empty: "optProp (JObj []) k = JUndefined"
  by (simp add: optProp_def lookup_def)

lemma optProp_undefined: "optProp JUndefined k = JUndefined"
  by (simp add: optProp_def)

lemma is_coverage_entry: "is_coverage (coverage_entry io)"
  by (simp add: is_coverage_def coverage_entry_def)

lemma insert_steps:
  assumes ins: "insertInstrumentationOptions jo can opts io = Inr opts'"
    and should: "instrument jo" "can" and nf: "already_inserted opts = Inr False"
  shows "\<exists>ps. getPath opts' [''jsc'', ''experimental'', ''plugins''] = JArr (plugin_list opts @ [coverage_entry io]) ps"
    and "k1 \<noteq> ''jsc'' \<Longrightarrow> optProp opts' k1 = optProp opts k1"
    and "k2 \<noteq> ''experimental'' \<Longrightarrow> getPath opts' [''jsc'', k2] = getPath opts [''jsc'', k2]"
    and "k3 \<noteq> ''plugins'' \<Longrightarrow> getPath opts' [''jsc'', ''experimental'', k3] = getPath opts [''jsc'', ''experimental'', k3]"
proof -
  from ins should nf obtain j0 opts1 jsc e0 jsc1 exp p0 exp1 plugins plugins' exp2 jsc2 where
    j0: "getProp opts ''jsc'' = Inr j0" and
    opts1: "(if \<not> truthy j0 then setProp opts ''jsc'' (JObj []) else Inr opts) = Inr opts1" and
    jsc: "getProp opts1 ''jsc'' = Inr jsc" and
    e0: "getProp jsc ''experimental'' = Inr e0" and
    jsc1: "(if \<not> truthy e0 then setProp jsc ''experimental'' (JObj []) else Inr jsc) = Inr jsc1" and
    exp: "getProp jsc1 ''experimental'' = Inr exp" and
    p0: "getProp exp ''plugins'' = Inr p0" and
    exp1: "(if \<not> isArray p0 then setProp exp ''plugins'' (JArr [] []) else Inr exp) = Inr exp1" and
    plugins: "getProp exp1 ''plugins'' = Inr plugins" and
    plugins': "push plugins (coverage_entry io) = Inr plugins'" and
    exp2: "setProp exp1 ''plugins'' plugins' = Inr exp2" and
    jsc2: "setProp jsc1 ''experimental'' exp2 = Inr jsc2" and
    opts': "setProp opts1 ''jsc'' jsc2 = Inr opts'"
    unfolding insertInstrumentationOptions_def coverage_entry_def Let_def bindE_Inr
    by (auto simp: bindE_Inr)
  note gp = getProp_Inr
  have j0': "optProp opts ''jsc'' = j0" using j0 by (rule gp)
  have jsc_eq: "jsc = (if truthy j0 then j0 else JObj [])"
    using opts1 gp [OF jsc] j0' by (auto simp: setProp_optProp split: if_splits)
  have jsc_k: "optProp jsc k = optProp j0 k" for k
    unfolding jsc_eq by (simp add: falsy_optProp optProp_empty)
  have e0': "e0 = optProp j0 ''experimental''" using gp [OF e0] jsc_k by simp
  have exp_eq: "exp = (if truthy e0 then e0 else JObj [])"
    using jsc1 gp [OF exp] gp [OF e0] by (auto simp: setProp_optProp split: if_splits)
  have exp_k: "optProp exp k = optProp e0 k" for k
    unfolding exp_eq by (simp add: falsy_optProp optProp_empty)
  have p0': "p0 = getPath opts [''jsc'', ''experimental'', ''plugins'']"
    using gp [OF p0] exp_k e0' j0' by simp
  have plugins_eq: "plugins = (if isArray p0 then p0 else JArr [] [])"
    using exp1 gp [OF plugins] gp [OF p0] by (auto simp: setProp_optProp split: if_splits)
  obtain ps where pl: "plugins = JArr (plugin_list opts) ps"
    unfolding plugins_eq plugin_list_def p0' [symmetric] by (cases p0) simp_all
  have 1: "getPath opts' [''jsc'', ''experimental'', ''plugins''] = JArr (plugin_list opts @ [coverage_entry io]) ps"
    using plugins' pl exp2 jsc2 opts' by (auto simp: setProp_optProp)
  have o1: "optProp opts1 k = optProp opts k" if "k \<noteq> ''jsc''" for k
    using opts1 that by (auto simp: setProp_optProp split: if_splits)
  have 2: "optProp opts' k = optProp opts k" if "k \<noteq> ''jsc''" for k
    using opts' o1 that by (simp add: setProp_optProp)
  have j1: "optProp jsc1 k = optProp jsc k" if "k \<noteq> ''experimental''" for k
    using jsc1 that by (auto simp: setProp_optProp split: if_splits)
  have 3: "getPath opts' [''jsc'', k] = getPath opts [''jsc'', k]" if "k \<noteq> ''experimental''" for k
    using opts' jsc2 j1 jsc_k j0' that by (simp add: setProp_optProp)
  have x1: "optProp exp1 k = optProp exp k" if "k \<noteq> ''plugins''" for k
    using exp1 that by (auto simp: setProp_optProp split: if_splits)
  have 4: "getPath opts' [''jsc'', ''experimental'', k] = getPath opts [''jsc'', ''experimental'', k]"
    if "k \<noteq> ''plugins''" for k
    using opts' jsc2 exp2 x1 exp_k e0' j0' that by (simp add: setProp_optProp)
  from 1 show "\<exists>ps. getPath opts' [''jsc'', ''experimental'', ''plugins''] = JArr (plugin_list opts @ [coverage_entry io]) ps" ..
  show "k1 \<noteq> ''jsc'' \<Longrightarrow> optProp opts' k1 = optProp opts k1" by (rule 2)
  show "k2 \<noteq> ''experimental'' \<Longrightarrow> getPath opts' [''jsc'', k2] = getPath opts [''jsc'', k2]" by (rule 3)
  show "k3 \<noteq> ''plugins'' \<Longrightarrow> getPath opts' [''jsc'', ''experimental'', k3] = getPath opts [''jsc'', ''experimental'', k3]"
    by (rule 4)
qed

lemma insert_noop:
  "\<not> instrument jo \<or> \<not> can \<Longrightarrow> insertInstrumentationOptions jo can opts io = Inr opts"
  by (auto simp: insertInstrumentationOptions_def)

lemma insert_cases:
  assumes "insertInstrumentationOptions jo can opts io = Inr opts'"
  obtains (skip) "\<not> (instrument jo \<and> can)" "opts' = opts"
  | (found) "instrument jo" "can" "already_inserted opts = Inr True" "opts' = opts"
  | (added) "instrument jo" "can" "already_inserted opts = Inr False"
proof (cases "instrument jo \<and> can")
  case False
  with assms insert_noop [of jo can opts io] show ?thesis by (auto intro: skip)
next
  case True
  with assms obtain b where b: "already_inserted opts = Inr b"
    by (auto simp: insertInstrumentationOptions_def bindE_Inr)
  show ?thesis
  proof (cases b)
    case True
    with b assms \<open>instrument jo \<and> can\<close> show ?thesis
      by (auto simp: insertInstrumentationOptions_def bindE_def intro: found)
  next
    case False
    with b \<open>instrument jo \<and> can\<close> show ?thesis by (auto intro: added)
  qed
qed

lemma insert_count:
  assumes "insertInstrumentationOptions jo can opts io = Inr opts'"
  shows "coverage_count opts' =
           (if instrument jo \<and> can \<and> coverage_count opts = 0 then 1 else coverage_count opts)"
  using assms
proof (cases rule: insert_cases)
  case skip
  then show ?thesis by auto
next
  case found
  then show ?thesis using already_inserted_True [of opts] by simp
next
  case added
  from insert_steps(1) [OF assms added] obtain ps where
    "getPath opts' [''jsc'', ''experimental'', ''plugins''] = JArr (plugin_list opts @ [coverage_entry io]) ps" ..
  then have "plugin_list opts' = plugin_list opts @ [coverage_entry io]"
    by (simp add: plugin_list_def)
  moreover have "coverage_count opts = 0" using added(3) by (rule already_inserted_False)
  ultimately show ?thesis using added(1,2)
    by (simp add: coverage_count_def is_coverage_entry)
qed

lemma insert_frame:
  assumes "insertInstrumentationOptions jo can opts io = Inr opts'"
  shows "(\<forall>k. k \<noteq> ''jsc'' \<longrightarrow> optProp opts' k = optProp opts k) \<and>
         (\<forall>k. k \<noteq> ''experimental'' \<longrightarrow> getPath opts' [''jsc'', k] = getPath opts [''jsc'', k]) \<and>
         (\<forall>k. k \<noteq> ''plugins'' \<longrightarrow> getPath opts' [''jsc'', ''experimental'', k] = getPath opts [''jsc'', ''experimental'', k]) \<and>
         (plugin_list opts' = plugin_list opts \<or> plugin_list opts' = plugin_list opts @ [coverage_entry io])"
  using assms
proof (cases rule: insert_cases)
  case skip
  then show ?thesis by simp
next
  case found
  then show ?thesis by simp
next
  case added
  from insert_steps(1) [OF assms added] obtain ps where
    "getPath opts' [''jsc'', ''experimental'', ''plugins''] = JArr (plugin_list opts @ [coverage_entry io]) ps" ..
  then have "plugin_list opts' = plugin_list opts @ [coverage_entry io]"
    by (simp add: plugin_list_def)
  with insert_steps(2-4) [OF assms added] show ?thesis by simp
qed

lemma perform_Inr:
  assumes "perform t c = Inr (t', r)"
  obtains opts' where
    "insertInstrumentationOptions (jestOptions_of c) (canInstrument t) (computedSwcOptions t) (instrumentOptions t) = Inr opts'"
    "t' = t\<lparr>computedSwcOptions := opts'\<rparr>"
  using assms by (cases c) (auto simp: process_def processAsync_def bindE_Inr)

lemma after_either:
  "after t c = t \<or>
   (\<exists>opts'. insertInstrumentationOptions (jestOptions_of c) (canInstrument t) (computedSwcOptions t)
              (instrumentOptions t) = Inr opts' \<and>
            after t c = t\<lparr>computedSwcOptions := opts'\<rparr>)"
proof (cases "perform t c")
  case (Inl e)
  then show ?thesis by (simp add: after_def)
next
  case (Inr p)
  then obtain t' r where p: "perform t c = Inr (t', r)" by (cases p) auto
  then have a: "after t c = t'" by (simp add: after_def)
  from p obtain opts' where
    "insertInstrumentationOptions (jestOptions_of c) (canInstrument t) (computedSwcOptions t)
       (instrumentOptions t) = Inr opts'" "t' = t\<lparr>computedSwcOptions := opts'\<rparr>"
    by (rule perform_Inr)
  with a show ?thesis by blast
qed

lemma after_fixed:
  "canInstrument (after t c) = canInstrument t"
  "instrumentOptions (after t c) = instrumentOptions t"
  "cacheKeyFunction (after t c) = cacheKeyFunction t"
  using after_either [of t c] by auto

lemma run_fixed:
  "canInstrument (run t cs) = canInstrument t"
  "instrumentOptions (run t cs) = instrumentOptions t"
  "cacheKeyFunction (run t cs) = cacheKeyFunction t"
  unfolding run_def by (induction cs arbitrary: t; simp add: after_fixed)+

lemma after_count:
  "coverage_count (computedSwcOptions (after t c)) = coverage_count (computedSwcOptions t) \<or>
   coverage_count (computedSwcOptions t) = 0 \<and> coverage_count (computedSwcOptions (after t c)) = 1"
proof -
  from after_either [of t c] consider "after t c = t"
    | opts' where
      "insertInstrumentationOptions (jestOptions_of c) (canInstrument t) (computedSwcOptions t)
         (instrumentOptions t) = Inr opts'" "after t c = t\<lparr>computedSwcOptions := opts'\<rparr>"
    by blast
  then show ?thesis
  proof cases
    case 1
    then show ?thesis by simp
  next
    case 2
    from insert_count [OF 2(1)] 2(2) show ?thesis by (simp split: if_splits)
  qed
qed

lemma run_count:
  "coverage_count (computedSwcOptions (run t cs)) = coverage_count (computedSwcOptions t) \<or>
   coverage_count (computedSwcOptions t) = 0 \<and> coverage_count (computedSwcOptions (run t cs)) = 1"
  unfolding run_def
proof (induction cs arbitrary: t)
  case Nil
  show ?case by simp
next
  case (Cons c cs)
  from Cons.IH [of "after t c"] after_count [of t c] show ?case by auto
qed

section \<open>The option resolver: defaults\<close>

text \<open>
  C5. Whatever the setup input is (explicit options or the contents of the configuration
  file, with the marker absent, false or anything else), the options the resolver returns
  hold \<^verbatim>\<open>true\<close> at \<^verbatim>\<open>jsc.transform.hidden.jest\<close>: the assignments made after the
  marker is set go to \<^verbatim>\<open>sourceMaps\<close> and \<^verbatim>\<open>jsc.baseUrl\<close> and leave it alone. (The
  resolver throws instead of returning when the configuration file does not parse or when
  a value on one of the assigned paths is a primitive.)
\<close>

theorem hidden_marker_forced:
  assumes "buildSwcTransformOpts h swcOptions = Inr opts"
  shows "getPath opts [''jsc'', ''transform'', ''hidden'', ''jest''] = JBool True"
  using assms by (rule marker_set)

theorem hidden_marker_forced_witness:
  "buildSwcTransformOpts example_host
     (JObj [(''jsc'', JObj [(''transform'', JObj [(''hidden'', JObj [(''jest'', JBool False)])])])])
   = Inr (JObj [(''jsc'', JObj [(''transform'', JObj [(''hidden'', JObj [(''jest'', JBool True)])]),
                                (''target'', JStr ''es2016'')]),
                (''sourceMaps'', JStr ''inline'')])
   \<and> getPath (JObj [(''jsc'', JObj [(''transform'', JObj [(''hidden'', JObj [(''jest'', JBool True)])]),
                                      (''target'', JStr ''es2016'')]),
                      (''sourceMaps'', JStr ''inline'')])
         [''jsc'', ''transform'', ''hidden'', ''jest''] = JBool True"
proof -
  have built: "buildSwcTransformOpts example_host
     (JObj [(''jsc'', JObj [(''transform'', JObj [(''hidden'', JObj [(''jest'', JBool False)])])])])
   = Inr (JObj [(''jsc'', JObj [(''transform'', JObj [(''hidden'', JObj [(''jest'', JBool True)])]),
                                (''target'', JStr ''es2016'')]),
                (''sourceMaps'', JStr ''inline'')])"
    by code_simp
  from hidden_marker_forced [OF built] built show ?thesis by simp
qed

text \<open>
  C6. The resolver tests \<^verbatim>\<open>env\<close> and \<^verbatim>\<open>jsc.target\<close> for truthiness. An input that lacks
  both (they are undefined, or hold another falsy value) gets the target level
  \<^verbatim>\<open>es2016\<close>. An input in which either is present with a value that counts as true (every
  environment configuration object and every target-level name does) keeps the
  \<^verbatim>\<open>jsc.target\<close> it came with, set or unset: the default is not applied.
\<close>

theorem default_target_level:
  assumes "buildSwcTransformOpts h swcOptions = Inr opts"
    and "given_options h swcOptions = Inr given"
  shows "(\<not> truthy (optProp given ''env'') \<and> \<not> truthy (getPath given [''jsc'', ''target''])
            \<longrightarrow> getPath opts [''jsc'', ''target''] = JStr ''es2016'') \<and>
         (truthy (optProp given ''env'') \<or> truthy (getPath given [''jsc'', ''target''])
            \<longrightarrow> getPath opts [''jsc'', ''target''] = getPath given [''jsc'', ''target''])"
  using target_resolved [OF assms] by simp

theorem default_target_level_witness:
  "buildSwcTransformOpts example_host (JObj [])
     = Inr (JObj [(''jsc'', JObj [(''target'', JStr ''es2016''),
                                  (''transform'', JObj [(''hidden'', JObj [(''jest'', JBool True)])])]),
                  (''sourceMaps'', JStr ''inline'')])
   \<and> getPath (JObj [(''jsc'', JObj [(''target'', JStr ''es2016''),
                                      (''transform'', JObj [(''hidden'', JObj [(''jest'', JBool True)])])]),
                      (''sourceMaps'', JStr ''inline'')]) [''jsc'', ''target''] = JStr ''es2016''
   \<and> buildSwcTransformOpts example_host (JObj [(''jsc'', JObj [(''target'', JStr ''es5'')])])
     = Inr (JObj [(''jsc'', JObj [(''target'', JStr ''es5''),
                                  (''transform'', JObj [(''hidden'', JObj [(''jest'', JBool True)])])]),
                  (''sourceMaps'', JStr ''inline'')])
   \<and> getPath (JObj [(''jsc'', JObj [(''target'', JStr ''es5''),
                                      (''transform'', JObj [(''hidden'', JObj [(''jest'', JBool True)])])]),
                      (''sourceMaps'', JStr ''inline'')]) [''jsc'', ''target'']
     = getPath (JObj [(''jsc'', JObj [(''target'', JStr ''es5'')])]) [''jsc'', ''target'']
   \<and> buildSwcTransformOpts example_host (JObj [(''env'', JObj [(''targets'', JStr ''node 18'')])])
     = Inr (JObj [(''env'', JObj [(''targets'', JStr ''node 18'')]),
                  (''jsc'', JObj [(''transform'', JObj [(''hidden'', JObj [(''jest'', JBool True)])])]),
                  (''sourceMaps'', JStr ''inline'')])
   \<and> getPath (JObj [(''env'', JObj [(''targets'', JStr ''node 18'')]),
                      (''jsc'', JObj [(''transform'', JObj [(''hidden'', JObj [(''jest'', JBool True)])])]),
                      (''sourceMaps'', JStr ''inline'')]) [''jsc'', ''target'']
     = getPath (JObj [(''env'', JObj [(''targets'', JStr ''node 18'')])]) [''jsc'', ''target'']"
proof -
  have none: "buildSwcTransformOpts example_host (JObj [])
      = Inr (JObj [(''jsc'', JObj [(''target'', JStr ''es2016''),
                                   (''transform'', JObj [(''hidden'', JObj [(''jest'', JBool True)])])]),
                   (''sourceMaps'', JStr ''inline'')])"
    by code_simp
  have level: "buildSwcTransformOpts example_host (JObj [(''jsc'', JObj [(''target'', JStr ''es5'')])])
      = Inr (JObj [(''jsc'', JObj [(''target'', JStr ''es5''),
                                   (''transform'', JObj [(''hidden'', JObj [(''jest'', JBool True)])])]),
                   (''sourceMaps'', JStr ''inline'')])"
    by code_simp
  have env: "buildSwcTransformOpts example_host (JObj [(''env'', JObj [(''targets'', JStr ''node 18'')])])
      = Inr (JObj [(''env'', JObj [(''targets'', JStr ''node 18'')]),
                   (''jsc'', JObj [(''transform'', JObj [(''hidden'', JObj [(''jest'', JBool True)])])]),
                   (''sourceMaps'', JStr ''inline'')])"
    by code_simp
  have given: "given_options example_host (JObj ps) = Inr (JObj ps)" for ps
    by (simp add: given_options_def)
  from default_target_level [OF none given] default_target_level [OF level given]
    default_target_level [OF env given] none level env
  show ?thesis by (simp add: optProp_def lookup_def)
qed

text \<open>
  C7, as stated, fails: an explicit \<^verbatim>\<open>sourceMaps: false\<close> is a value the caller has set,
  and the resolver replaces it by \<^verbatim>\<open>'inline'\<close>, since \<^verbatim>\<open>!computedSwcOptions.sourceMaps\<close>
  holds for \<^verbatim>\<open>false\<close> as it does for an unset option.
\<close>

theorem sourceMaps_false_replaced:
  "buildSwcTransformOpts example_host (JObj [(''sourceMaps'', JBool False)])
   = Inr (JObj [(''sourceMaps'', JStr ''inline''),
                (''jsc'', JObj [(''target'', JStr ''es2016''),
                                (''transform'', JObj [(''hidden'', JObj [(''jest'', JBool True)])])])])"
  by code_simp

text \<open>
  C7, amended. The default \<^verbatim>\<open>'inline'\<close> is applied exactly when the source-map option is
  unset or holds a falsy value (\<^verbatim>\<open>false\<close> among them); for every input in which it holds
  a value that counts as true (\<^verbatim>\<open>true\<close>, \<^verbatim>\<open>'inline'\<close>), the resolver leaves that value
  unchanged.
\<close>

theorem sourceMaps_default:
  assumes "buildSwcTransformOpts h swcOptions = Inr opts"
    and "given_options h swcOptions = Inr given"
  shows "(truthy (optProp given ''sourceMaps'')
            \<longrightarrow> optProp opts ''sourceMaps'' = optProp given ''sourceMaps'') \<and>
         (\<not> truthy (optProp given ''sourceMaps'')
            \<longrightarrow> optProp opts ''sourceMaps'' = JStr ''inline'')"
  using sourceMaps_resolved [OF assms] by simp

theorem sourceMaps_default_witness:
  "buildSwcTransformOpts example_host (JObj [(''sourceMaps'', JBool True)])
     = Inr (JObj [(''sourceMaps'', JBool True),
                  (''jsc'', JObj [(''target'', JStr ''es2016''),
                                  (''transform'', JObj [(''hidden'', JObj [(''jest'', JBool True)])])])])
   \<and> optProp (JObj [(''sourceMaps'', JBool True),
                      (''jsc'', JObj [(''target'', JStr ''es2016''),
                                      (''transform'', JObj [(''hidden'', JObj [(''jest'', JBool True)])])])])
         ''sourceMaps''
     = optProp (JObj [(''sourceMaps'', JBool True)]) ''sourceMaps''
   \<and> buildSwcTransformOpts example_host (JObj [])
     = Inr (JObj [(''jsc'', JObj [(''target'', JStr ''es2016''),
                                  (''transform'', JObj [(''hidden'', JObj [(''jest'', JBool True)])])]),
                  (''sourceMaps'', JStr ''inline'')])
   \<and> optProp (JObj [(''jsc'', JObj [(''target'', JStr ''es2016''),
                                      (''transform'', JObj [(''hidden'', JObj [(''jest'', JBool True)])])]),
                      (''sourceMaps'', JStr ''inline'')])
         ''sourceMaps'' = JStr ''inline''"
proof -
  have kept: "buildSwcTransformOpts example_host (JObj [(''sourceMaps'', JBool True)])
      = Inr (JObj [(''sourceMaps'', JBool True),
                   (''jsc'', JObj [(''target'', JStr ''es2016''),
                                   (''transform'', JObj [(''hidden'', JObj [(''jest'', JBool True)])])])])"
    by code_simp
  have unset: "buildSwcTransformOpts example_host (JObj [])
      = Inr (JObj [(''jsc'', JObj [(''target'', JStr ''es2016''),
                                   (''transform'', JObj [(''hidden'', JObj [(''jest'', JBool True)])])]),
                   (''sourceMaps'', JStr ''inline'')])"
    by code_simp
  have given: "given_options example_host (JObj ps) = Inr (JObj ps)" for ps
    by (simp add: given_options_def)
  from sourceMaps_default [OF kept given] sourceMaps_default [OF unset given] kept unset
  show ?thesis by (simp add: optProp_def lookup_def)
qed

section \<open>The transform operations\<close>

lemma overlay_module_type:
  assumes "overlay opts moduleType filename = Inr ov"
  shows "getPath ov [''module'', ''type''] = JStr moduleType"
    and "optProp ov ''filename'' = JStr filename"
  using assms by (auto simp: overlay_def bindE_Inr optProp_def lookup_update)

lemma overlay_keeps:
  assumes "overlay opts moduleType filename = Inr ov" and "ident k" and "k \<noteq> ''module''" and "k \<noteq> ''filename''"
  shows "optProp ov k = optProp opts k"
  using assms by (auto simp: overlay_def bindE_Inr optProp_def [of "JObj _"] lookup_update ownProps_lookup)

lemma process_Inr:
  assumes "process t src filename jo = Inr (t', c)"
  obtains opts' ov where
    "insertInstrumentationOptions jo (canInstrument t) (computedSwcOptions t) (instrumentOptions t) = Inr opts'"
    "overlay opts' (if supportsStaticESM jo then ''es6'' else ''commonjs'') filename = Inr ov"
    "t' = t\<lparr>computedSwcOptions := opts'\<rparr>" "c = TransformSync src ov"
  using assms unfolding process_def bindE_Inr by auto

lemma processAsync_Inr:
  assumes "processAsync t src filename jo = Inr (t', c)"
  obtains opts' ov where
    "insertInstrumentationOptions jo (canInstrument t) (computedSwcOptions t) (instrumentOptions t) = Inr opts'"
    "overlay opts' ''es6'' filename = Inr ov"
    "t' = t\<lparr>computedSwcOptions := opts'\<rparr>" "c = Transform src ov"
  using assms unfolding processAsync_def bindE_Inr by auto

lemma build_coverage_options:
  "buildSwcTransformOpts example_host coverage_options = Inr coverage_resolved"
  by code_simp

lemma create_coverage_instance:
  "createTransformer example_host coverage_options = Inr coverage_instance"
  unfolding createTransformer_def build_coverage_options
  by (simp add: bindE_def coverage_instance_def coverage_options_def optProp_def lookup_def
      restWithout_def AList.delete_eq)

lemma run_coverage_instance:
  "computedSwcOptions (run coverage_instance
     [Process ''export {}'' ''a.ts'' with_coverage, ProcessAsync ''export {}'' ''b.ts'' with_coverage])
   = coverage_instrumented"
  by code_simp

subsection \<open>Calls that do not instrument\<close>

lemma after_noop: "\<not> wantsCoverage c \<or> \<not> canInstrument t \<Longrightarrow> after t c = t"
  using after_either [of t c] insert_noop [of "jestOptions_of c" "canInstrument t" "computedSwcOptions t" "instrumentOptions t"]
  by (auto simp: wantsCoverage_def)

lemma run_noop: "(\<forall>c \<in> set cs. \<not> wantsCoverage c) \<or> \<not> canInstrument t \<Longrightarrow> run t cs = t"
  unfolding run_def by (induction cs) (auto simp: after_noop)

text \<open>
  C4. When the call context does not request coverage, or the instance is not capable of
  instrumenting, \<^verbatim>\<open>insertInstrumentationOptions\<close> returns with the shared options exactly
  as they were; so a transform call, and any sequence of such calls, leaves the whole
  instance (plugin list included) unchanged.
\<close>

theorem injector_noop:
  "(\<not> instrument jestOptions \<or> \<not> canInstr \<longrightarrow>
      insertInstrumentationOptions jestOptions canInstr swcTransformOpts instrumentOpts = Inr swcTransformOpts) \<and>
   (\<not> wantsCoverage c \<or> \<not> canInstrument t \<longrightarrow> after t c = t) \<and>
   ((\<forall>c \<in> set cs. \<not> wantsCoverage c) \<or> \<not> canInstrument t \<longrightarrow> run t cs = t)"
  using insert_noop after_noop run_noop by blast

theorem injector_noop_witness:
  "insertInstrumentationOptions without_coverage True coverage_resolved (JObj []) = Inr coverage_resolved \<and>
   insertInstrumentationOptions with_coverage False coverage_resolved (JObj []) = Inr coverage_resolved \<and>
   after coverage_instance (Process ''export {}'' ''a.ts'' without_coverage) = coverage_instance \<and>
   run coverage_instance
     [Process ''export {}'' ''a.ts'' without_coverage, ProcessAsync ''export {}'' ''b.ts'' without_coverage]
     = coverage_instance \<and>
   plugin_list (computedSwcOptions (run coverage_instance
     [Process ''export {}'' ''a.ts'' without_coverage, ProcessAsync ''export {}'' ''b.ts'' without_coverage]))
     = []"
proof -
  let ?c1 = "Process ''export {}'' ''a.ts'' without_coverage"
  let ?c2 = "ProcessAsync ''export {}'' ''b.ts'' without_coverage"
  have off: "\<not> instrument without_coverage" by (simp add: without_coverage_def)
  have no: "\<not> wantsCoverage ?c1" "\<not> wantsCoverage ?c2"
    by (simp_all add: wantsCoverage_def without_coverage_def)
  have empty: "plugin_list (computedSwcOptions coverage_instance) = []" by code_simp
  from injector_noop [of without_coverage True coverage_resolved "JObj []" ?c1 coverage_instance "[?c1, ?c2]"]
    injector_noop [of with_coverage False coverage_resolved "JObj []" ?c1 coverage_instance "[?c1, ?c2]"]
    off no empty
  show ?thesis by simp
qed

section \<open>The cache key\<close>

text \<open>
  The key is the hexadecimal rendering, in lowercase digits, of the MD5 digest of the base
  key, a zero byte and the serialised flag object. The messages hashed for the two values
  of the flag always differ and the rendering is injective, so two keys that differ only
  in the flag are equal exactly when MD5 takes the same value on two different messages.
\<close>

lemma json_flag:
  "json (JObj [(''supportsStaticESM'', JBool b)])
     = [CHR ''{'', CHR 0x22] @ ''supportsStaticESM'' @ [CHR 0x22, CHR '':''] @ (if b then ''true'' else ''false'') @ ''}''"
  by (simp add: json_quote_def json_escape_def)

lemma key_message_flag:
  "key_message base (JBool True) \<noteq> key_message base' (JBool False)"
proof
  assume "key_message base (JBool True) = key_message base' (JBool False)"
  then have "rev (key_message base (JBool True)) = rev (key_message base' (JBool False))"
    by simp
  then show False by (simp add: key_message_def json_flag)
qed

lemma getCacheKey_options:
  "getCacheKey h t src filename [ArgOptions opts]
     = Inr (hex (md5 h (cacheKeyFunction t src filename [ArgOptions opts] @ [CHR 0x00]
                        @ json (JObj [(''supportsStaticESM'', JBool (supportsStaticESM opts))]))))"
  by (simp add: getCacheKey_def key_message_def bindE_def)

lemma getCacheKey_config_options:
  "getCacheKey h t src filename [ArgString config, ArgOptions opts]
     = Inr (hex (md5 h (cacheKeyFunction t src filename [ArgString config, ArgOptions opts] @ [CHR 0x00]
                        @ json (JObj [(''supportsStaticESM'', JBool (supportsStaticESM opts))]))))"
  by (simp add: getCacheKey_def key_message_def bindE_def)

lemma hex_digit_lower: "hex_digit n \<in> set ''0123456789abcdef''"
  unfolding hex_digit_def by (rule nth_mem) simp

lemma hex_lowercase: "set (hex bs) \<subseteq> set ''0123456789abcdef''"
  unfolding hex_def hex_byte_def using hex_digit_lower by auto

lemma hex_length: "length (hex bs) = 2 * length bs"
  by (induction bs) (simp_all add: hex_def hex_byte_def)

lemma hex_digit_inj: "m < 16 \<Longrightarrow> n < 16 \<Longrightarrow> hex_digit m = hex_digit n \<Longrightarrow> m = n"
proof -
  assume m: "m < 16" and n: "n < 16" and eq: "hex_digit m = hex_digit n"
  have d: "distinct ''0123456789abcdef''" by simp
  have l: "length ''0123456789abcdef'' = 16" by simp
  from eq m n have "''0123456789abcdef'' ! m = ''0123456789abcdef'' ! n"
    by (simp add: hex_digit_def)
  with d l m n show "m = n" by (simp add: nth_eq_iff_index_eq)
qed

lemma hex_byte_inj:
  fixes a b :: "8 word"
  assumes "hex_byte (unat a) = hex_byte (unat b)"
  shows "a = b"
proof -
  have la: "unat a < 256" and lb: "unat b < 256"
    using unsigned_less [of a, where ?'a = nat] unsigned_less [of b, where ?'a = nat] by simp_all
  from assms have hi: "hex_digit (unat a div 16) = hex_digit (unat b div 16)"
    and lo: "hex_digit (unat a mod 16) = hex_digit (unat b mod 16)"
    by (simp_all add: hex_byte_def)
  from la lb have "unat a div 16 < 16" "unat b div 16 < 16" by simp_all
  then have 1: "unat a div 16 = unat b div 16" using hi by (rule hex_digit_inj)
  have "unat a mod 16 < 16" "unat b mod 16 < 16" by simp_all
  then have 2: "unat a mod 16 = unat b mod 16" using lo by (rule hex_digit_inj)
  from 1 2 have "unat a = unat b" by (metis div_mult_mod_eq)
  then show ?thesis by (simp add: word_unat_eq_iff)
qed

lemma hex_inj: "hex as = hex bs \<Longrightarrow> as = bs"
proof (induction as arbitrary: bs)
  case Nil
  then have "length (hex bs) = 0" by (simp add: hex_def)
  then show ?case by (simp add: hex_length)
next
  case (Cons a as)
  from Cons.prems have "length (hex bs) = length (hex (a # as))" by simp
  then obtain b bs' where bs: "bs = b # bs'"
    by (cases bs) (simp_all add: hex_length)
  with Cons.prems have "hex_byte (unat a) @ hex as = hex_byte (unat b) @ hex bs'"
    by (simp add: hex_def)
  then have "hex_byte (unat a) = hex_byte (unat b)" and "hex as = hex bs'"
    by (simp_all add: hex_byte_def)
  with Cons.IH bs show ?case by (simp add: hex_byte_inj)
qed

lemma cache_keys_differ_iff:
  "getCacheKey h t src filename [ArgOptions \<lparr>instrument = i, supportsStaticESM = True\<rparr>]
     \<noteq> getCacheKey h t src filename [ArgOptions \<lparr>instrument = i, supportsStaticESM = False\<rparr>]
   \<longleftrightarrow> md5 h (key_message (cacheKeyFunction t src filename [ArgOptions \<lparr>instrument = i, supportsStaticESM = True\<rparr>]) (JBool True))
     \<noteq> md5 h (key_message (cacheKeyFunction t src filename [ArgOptions \<lparr>instrument = i, supportsStaticESM = False\<rparr>]) (JBool False))"
  by (auto simp: getCacheKey_def bindE_def dest: hex_inj)

lemma getCacheKey_closure:
  "cacheKeyFunction t' = cacheKeyFunction t \<Longrightarrow> getCacheKey h t' src filename rest = getCacheKey h t src filename rest"
  by (simp add: getCacheKey_def)

lemma createTransformer_Inr:
  assumes "createTransformer h swcTransformOpts = Inr t"
  shows "buildSwcTransformOpts h swcTransformOpts = Inr (computedSwcOptions t)"
    and "cacheKeyFunction t = getCacheKeyFunction h [] [swcVersion h, version, json (computedSwcOptions t)]"
  using assms by (auto simp: createTransformer_def bindE_Inr Let_def)

text \<open>
  C10. The key function is obtained once, in \<^verbatim>\<open>createTransformer\<close>, from the serialisation
  of the options as resolved at setup; the transform calls change the shared options and
  never the key function, so \<^verbatim>\<open>getCacheKey\<close> returns for the same arguments the same key
  before and after any sequence of transform calls.
\<close>

theorem cache_key_fixed_at_setup:
  "getCacheKey h (run t cs) src filename rest = getCacheKey h t src filename rest \<and>
   (createTransformer h swcTransformOpts = Inr t \<longrightarrow>
      cacheKeyFunction (run t cs)
        = getCacheKeyFunction h [] [swcVersion h, version, json (computedSwcOptions t)])"
proof (intro conjI impI)
  show "getCacheKey h (run t cs) src filename rest = getCacheKey h t src filename rest"
    by (rule getCacheKey_closure) (rule run_fixed)
next
  assume "createTransformer h swcTransformOpts = Inr t"
  then have "cacheKeyFunction t
      = getCacheKeyFunction h [] [swcVersion h, version, json (computedSwcOptions t)]"
    by (rule createTransformer_Inr)
  then show "cacheKeyFunction (run t cs)
      = getCacheKeyFunction h [] [swcVersion h, version, json (computedSwcOptions t)]"
    by (simp only: run_fixed)
qed

theorem cache_key_fixed_at_setup_witness:
  "createTransformer example_host coverage_options = Inr coverage_instance \<and>
   computedSwcOptions (run coverage_instance
     [Process ''export {}'' ''a.ts'' with_coverage, ProcessAsync ''export {}'' ''b.ts'' with_coverage])
     = coverage_instrumented \<and>
   json coverage_instrumented \<noteq> json (computedSwcOptions coverage_instance) \<and>
   getCacheKey example_host
     (run coverage_instance
        [Process ''export {}'' ''a.ts'' with_coverage, ProcessAsync ''export {}'' ''b.ts'' with_coverage])
     ''export {}'' ''a.ts'' [ArgOptions with_coverage]
     = getCacheKey example_host coverage_instance ''export {}'' ''a.ts'' [ArgOptions with_coverage] \<and>
   cacheKeyFunction
     (run coverage_instance
        [Process ''export {}'' ''a.ts'' with_coverage, ProcessAsync ''export {}'' ''b.ts'' with_coverage])
     = getCacheKeyFunction example_host []
         [swcVersion example_host, version, json (computedSwcOptions coverage_instance)]"
proof -
  let ?cs = "[Process ''export {}'' ''a.ts'' with_coverage, ProcessAsync ''export {}'' ''b.ts'' with_coverage]"
  have differ: "json coverage_instrumented \<noteq> json (computedSwcOptions coverage_instance)"
    by code_simp
  from cache_key_fixed_at_setup
    [of example_host coverage_instance ?cs "''export {}''" "''a.ts''" "[ArgOptions with_coverage]" coverage_options]
    create_coverage_instance run_coverage_instance differ
  show ?thesis by simp
qed

section \<open>The configuration file\<close>

lemma set_loop_TypeError: "set_loop obj ps key v = Inl e \<Longrightarrow> e = TypeError"
proof (induction ps arbitrary: obj)
  case Nil
  then show ?case by (auto simp: set_loop.simps dest: setProp_Inl)
next
  case (Cons p ps)
  then show ?case
    by (auto simp: set_loop.simps bindE_Inl dest: setProp_Inl getProp_Inl split: if_splits)
qed

lemma set_js_TypeError: "set_js obj path v = Inl e \<Longrightarrow> e = TypeError"
  by (auto simp: set_js_def Let_def dest: set_loop_TypeError)

lemma restWithout_TypeError: "restWithout k v = Inl e \<Longrightarrow> e = TypeError"
  by (auto simp: restWithout_def split: if_splits)

lemma resolve_arg_TypeError: "resolve_arg h v = Inl e \<Longrightarrow> e = TypeError"
  by (auto simp: resolve_arg_def split: jsv.splits)

lemma only_TypeError_bindE:
  "only_TypeError m \<Longrightarrow> (\<And>x. only_TypeError (f x)) \<Longrightarrow> only_TypeError (bindE m f)"
  by (cases m) (auto simp: only_TypeError_def bindE_def)

lemma only_TypeError_if:
  "only_TypeError a \<Longrightarrow> only_TypeError b \<Longrightarrow> only_TypeError (if c then a else b)"
  by simp

lemma only_TypeError_basic:
  "only_TypeError (Inr x)"
  "only_TypeError (set_js obj path v)"
  "only_TypeError (restWithout k v)"
  "only_TypeError (resolve_arg h v)"
  by (auto simp: only_TypeError_def
      dest: set_js_TypeError restWithout_TypeError resolve_arg_TypeError)

lemma build_Error:
  "buildSwcTransformOpts h swcOptions = Inl (Error m) \<longleftrightarrow> given_options h swcOptions = Inl (Error m)"
proof
  assume "given_options h swcOptions = Inl (Error m)"
  then show "buildSwcTransformOpts h swcOptions = Inl (Error m)"
    by (simp add: buildSwcTransformOpts_def bindE_def)
next
  assume failed: "buildSwcTransformOpts h swcOptions = Inl (Error m)"
  show "given_options h swcOptions = Inl (Error m)"
  proof (cases "given_options h swcOptions")
    case (Inl e)
    with failed show ?thesis by (simp add: buildSwcTransformOpts_def bindE_def)
  next
    case (Inr given)
    have "only_TypeError (buildSwcTransformOpts h swcOptions)"
      unfolding buildSwcTransformOpts_def Inr
      by (simp add: bindE_def [of "Inr given"])
         (intro only_TypeError_bindE only_TypeError_if only_TypeError_basic)
    with failed show ?thesis by (simp add: only_TypeError_def)
  qed
qed

lemma create_Error:
  "createTransformer h swcOptions = Inl (Error m) \<longleftrightarrow> buildSwcTransformOpts h swcOptions = Inl (Error m)"
  unfolding createTransformer_def bindE_Inl Let_def
  by (auto dest: restWithout_TypeError)

lemma toString_errors:
  "map ParseError_toString errors = replicate (length errors) ''[object Object]''"
  by (induction errors) (simp_all add: ParseError_toString_def)

lemma getOptionsFromSwrc_cases:
  "getOptionsFromSwrc h =
     (case fs h (swcrc_path h) of
        Absent \<Rightarrow> Inr (JObj [])
      | Unreadable \<Rightarrow> Inl SystemError
      | Content contents \<Rightarrow>
          if snd (parseJsonC h contents) = [] then Inr (fst (parseJsonC h contents))
          else Inl (Error (''Error parsing '' @ swcrc_path h @ '': ''
                 @ join_js '', '' (replicate (length (snd (parseJsonC h contents))) ''[object Object]''))))"
  by (auto simp: getOptionsFromSwrc_def toString_errors split: fs_entry.splits prod.splits)

text \<open>
  With no explicit options and a \<^verbatim>\<open>.swcrc\<close> for which the parser reports errors, the
  resolver, and with it \<^verbatim>\<open>createTransformer\<close>, throws and returns nothing. The message is
  \<^verbatim>\<open>Error parsing \<close>, the path, a colon and one entry for each reported error, separated
  by commas; an entry is the text a plain object converts to. With explicit options, with
  no file, or with a file the parser reports no error for, no such error is thrown.
\<close>

lemma swcrc_errors_thrown:
  "(\<not> truthy swcOptions \<and> fs h (swcrc_path h) = Content contents \<and>
      parseJsonC h contents = (options, errors) \<and> errors \<noteq> [] \<longrightarrow>
        createTransformer h swcOptions
          = Inl (Error (''Error parsing '' @ swcrc_path h @ '': ''
                        @ join_js '', '' (replicate (length errors) ''[object Object]''))) \<and>
        buildSwcTransformOpts h swcOptions
          = Inl (Error (''Error parsing '' @ swcrc_path h @ '': ''
                        @ join_js '', '' (replicate (length errors) ''[object Object]''))) \<and>
        0 < length errors) \<and>
   (truthy swcOptions \<or> fs h (swcrc_path h) = Absent \<or>
      (fs h (swcrc_path h) = Content contents \<and> parseJsonC h contents = (options, [])) \<longrightarrow>
        (\<forall>m. createTransformer h swcOptions \<noteq> Inl (Error m)))"
  by (auto simp: create_Error build_Error given_options_def getOptionsFromSwrc_cases)

text \<open>
  C8. With no explicit options and a \<^verbatim>\<open>.swcrc\<close> that holds an opening brace and nothing
  else, setup throws, and the message is \<^verbatim>\<open>Error parsing /work/.swcrc: [object Object]\<close>:
  the entry for the parse error is the text \<^verbatim>\<open>Array.prototype.join\<close> converts the error
  object to, and names no parse problem (neither its code nor its place). A \<^verbatim>\<open>.swcrc\<close>
  that is well-formed but for a trailing comma makes setup throw in the same way, the
  parser being called without \<^verbatim>\<open>allowTrailingComma\<close>.
\<close>

theorem swcrc_message_names_no_problem:
  "createTransformer broken_host JUndefined
     = Inl (Error ''Error parsing /work/.swcrc: [object Object]'') \<and>
   createTransformer trailing_comma_host JUndefined
     = Inl (Error ''Error parsing /work/.swcrc: [object Object], [object Object]'')"
proof -
  have 1: "getOptionsFromSwrc broken_host = Inl (Error ''Error parsing /work/.swcrc: [object Object]'')"
    by (simp add: getOptionsFromSwrc_def broken_host_def example_host_def swcrc_path_def
        ParseError_toString_def)
  have 2: "getOptionsFromSwrc trailing_comma_host
      = Inl (Error ''Error parsing /work/.swcrc: [object Object], [object Object]'')"
    by (simp add: getOptionsFromSwrc_def trailing_comma_host_def example_host_def swcrc_path_def
        ParseError_toString_def)
  from 1 2 show ?thesis
    by (simp add: createTransformer_def buildSwcTransformOpts_def given_options_def bindE_def)
qed

section \<open>The coverage descriptor is inserted once\<close>

lemma perform_count:
  assumes "perform t c = Inr (t', r)"
  shows "coverage_count (computedSwcOptions t') =
           (if wantsCoverage c \<and> canInstrument t \<and> coverage_count (computedSwcOptions t) = 0 then 1
            else coverage_count (computedSwcOptions t))"
    and "canInstrument t' = canInstrument t"
proof -
  from assms obtain opts' where
    ins: "insertInstrumentationOptions (jestOptions_of c) (canInstrument t) (computedSwcOptions t)
       (instrumentOptions t) = Inr opts'" and t': "t' = t\<lparr>computedSwcOptions := opts'\<rparr>"
    by (rule perform_Inr)
  from insert_count [OF ins] t'
  show "coverage_count (computedSwcOptions t') =
           (if wantsCoverage c \<and> canInstrument t \<and> coverage_count (computedSwcOptions t) = 0 then 1
            else coverage_count (computedSwcOptions t))"
    by (simp add: wantsCoverage_def)
  from t' show "canInstrument t' = canInstrument t" by simp
qed

lemma returns_Inr: "returns m \<longleftrightarrow> (\<exists>x. m = Inr x)"
  by (cases m) (simp_all add: returns_def)

text \<open>
  C2, amended. Transform calls change the number of coverage entries of the shared plugin
  list in one way only, from none to one. So on every instance whose options list the
  coverage plugin at most once at setup, the list holds at most one coverage entry after
  every sequence of calls; and if such an instance is capable of instrumenting, two calls
  in sequence that request coverage, the first of which reaches the compiler, leave exactly
  one.
\<close>

theorem coverage_plugin_at_most_once:
  "(coverage_count (computedSwcOptions (run t cs)) = coverage_count (computedSwcOptions t) \<or>
    coverage_count (computedSwcOptions t) = 0 \<and> coverage_count (computedSwcOptions (run t cs)) = 1) \<and>
   (coverage_count (computedSwcOptions t) \<le> 1 \<longrightarrow> coverage_count (computedSwcOptions (run t cs)) \<le> 1) \<and>
   (coverage_count (computedSwcOptions t) \<le> 1 \<and> canInstrument t \<and>
    wantsCoverage c1 \<and> wantsCoverage c2 \<and> returns (perform t c1)
      \<longrightarrow> coverage_count (computedSwcOptions (run t [c1, c2])) = 1)"
proof (intro conjI impI)
  show "coverage_count (computedSwcOptions (run t cs)) = coverage_count (computedSwcOptions t) \<or>
    coverage_count (computedSwcOptions t) = 0 \<and> coverage_count (computedSwcOptions (run t cs)) = 1"
    by (rule run_count)
next
  assume "coverage_count (computedSwcOptions t) \<le> 1"
  with run_count [of t cs] show "coverage_count (computedSwcOptions (run t cs)) \<le> 1" by auto
next
  assume a: "coverage_count (computedSwcOptions t) \<le> 1 \<and> canInstrument t \<and>
    wantsCoverage c1 \<and> wantsCoverage c2 \<and> returns (perform t c1)"
  then obtain t1 r1 where p1: "perform t c1 = Inr (t1, r1)" by (auto simp: returns_Inr)
  then have t1: "after t c1 = t1" by (simp add: after_def)
  from perform_count [OF p1] a have "coverage_count (computedSwcOptions t1) = 1"
    by (auto split: if_splits)
  with after_count [of t1 c2] t1 show "coverage_count (computedSwcOptions (run t [c1, c2])) = 1"
    by (simp add: run_def)
qed

theorem coverage_plugin_at_most_once_witness:
  "coverage_count (computedSwcOptions coverage_instance) \<le> 1 \<and>
   canInstrument coverage_instance \<and>
   wantsCoverage (Process ''export {}'' ''a.ts'' with_coverage) \<and>
   wantsCoverage (ProcessAsync ''export {}'' ''b.ts'' with_coverage) \<and>
   returns (perform coverage_instance (Process ''export {}'' ''a.ts'' with_coverage)) \<and>
   computedSwcOptions (run coverage_instance
     [Process ''export {}'' ''a.ts'' with_coverage, ProcessAsync ''export {}'' ''b.ts'' with_coverage])
     = coverage_instrumented \<and>
   coverage_count coverage_instrumented = 1"
proof -
  have 1: "coverage_count (computedSwcOptions coverage_instance) \<le> 1" by code_simp
  have 2: "canInstrument coverage_instance" by (simp add: coverage_instance_def)
  have 3: "wantsCoverage (Process ''export {}'' ''a.ts'' with_coverage)"
    "wantsCoverage (ProcessAsync ''export {}'' ''b.ts'' with_coverage)"
    by (simp_all add: wantsCoverage_def with_coverage_def)
  have 4: "returns (perform coverage_instance (Process ''export {}'' ''a.ts'' with_coverage))"
    by code_simp
  from coverage_plugin_at_most_once
    [of coverage_instance "[Process ''export {}'' ''a.ts'' with_coverage, ProcessAsync ''export {}'' ''b.ts'' with_coverage]"
      "Process ''export {}'' ''a.ts'' with_coverage" "ProcessAsync ''export {}'' ''b.ts'' with_coverage"]
    1 2 3 4 run_coverage_instance
  show ?thesis by simp
qed

lemma build_duplicate_options:
  "buildSwcTransformOpts example_host duplicate_options = Inr duplicate_resolved"
  by code_simp

lemma create_duplicate_instance:
  "createTransformer example_host duplicate_options = Inr duplicate_instance"
  unfolding createTransformer_def build_duplicate_options
  by (simp add: bindE_def duplicate_instance_def duplicate_options_def optProp_def lookup_def
      restWithout_def AList.delete_eq)

text \<open>
  C2, as stated, fails: the guard of \<^verbatim>\<open>insertInstrumentationOptions\<close> keeps the module from
  inserting the descriptor twice, and nothing removes entries the caller's own options
  hold. An instance set up with the plugin listed twice has two coverage entries at setup
  and after every call.
\<close>

theorem duplicate_coverage_entries_kept:
  "createTransformer example_host duplicate_options = Inr duplicate_instance \<and>
   coverage_count (computedSwcOptions duplicate_instance) = 2 \<and>
   coverage_count (computedSwcOptions
     (run duplicate_instance
        [Process ''export {}'' ''a.ts'' with_coverage, ProcessAsync ''export {}'' ''b.ts'' with_coverage])) = 2"
proof (intro conjI)
  show "createTransformer example_host duplicate_options = Inr duplicate_instance"
    by (rule create_duplicate_instance)
  show "coverage_count (computedSwcOptions duplicate_instance) = 2"
    by code_simp
  show "coverage_count (computedSwcOptions
     (run duplicate_instance
        [Process ''export {}'' ''a.ts'' with_coverage, ProcessAsync ''export {}'' ''b.ts'' with_coverage])) = 2"
    by code_simp
qed

section \<open>When the operations return\<close>

text \<open>
  The statements above about results hold for every input on which the operation returns.
  The operations do return on inputs of the declared shapes: the resolver on every
  \<open>typed_options\<close>, and every transform call, after any sequence of calls, on an instance
  set up from \<open>typed_plugins\<close>.
\<close>

lemma setProp_returns: "returns (setProp obj k v) = isObject obj"
  by (cases obj) (simp_all add: returns_def)

lemma isObject_getProp: "isObject obj \<Longrightarrow> getProp obj k = Inr (optProp obj k)"
  by (cases obj) (simp_all add: optProp_def)

lemma isObject_setProp: "isObject obj \<Longrightarrow> \<exists>obj'. setProp obj k v = Inr obj' \<and> isObject obj'"
  by (cases obj) simp_all

lemma walkable_empty: "walkable (JObj []) ps"
  by (cases ps) (simp_all add: optProp_empty)

lemma walkable_isObject: "walkable obj ps \<Longrightarrow> isObject obj"
  by (cases ps) simp_all

lemma set_loop_walkable:
  "walkable obj ps \<Longrightarrow> \<exists>obj'. set_loop obj ps key v = Inr obj' \<and> isObject obj'"
proof (induction ps arbitrary: obj)
  case Nil
  then show ?case by (simp add: set_loop.simps isObject_setProp)
next
  case (Cons p ps)
  then have obj: "isObject obj" by simp
  let ?cur = "optProp obj p"
  show ?case
  proof (cases "nullish ?cur")
    case True
    from obj obtain obj1 where obj1: "setProp obj p (JObj []) = Inr obj1" "isObject obj1"
      using isObject_setProp by blast
    then have child: "optProp obj1 p = JObj []" by (simp add: setProp_optProp)
    from Cons.IH [OF walkable_empty] obtain child' where
      child': "set_loop (JObj []) ps key v = Inr child'" by blast
    from obj1 obtain obj' where "setProp obj1 p child' = Inr obj'" "isObject obj'"
      using isObject_setProp by blast
    with True obj obj1 child child' show ?thesis
      by (simp add: set_loop.simps bindE_def isObject_getProp)
  next
    case False
    with Cons.prems have "walkable ?cur ps" by simp
    from Cons.IH [OF this] obtain child' where
      child': "set_loop ?cur ps key v = Inr child'" by blast
    from obj obtain obj' where "setProp obj p child' = Inr obj'" "isObject obj'"
      using isObject_setProp by blast
    with False obj child' show ?thesis
      by (simp add: set_loop.simps bindE_def isObject_getProp)
  qed
qed

lemma optProp_defined: "optProp v k \<noteq> JUndefined \<Longrightarrow> isObject v"
  by (cases v) (simp_all add: optProp_def)

lemma restWithout_JObj: "restWithout k v = Inr c0 \<Longrightarrow> isObject c0"
  by (auto simp: restWithout_def split: if_splits)

theorem resolver_returns:
  assumes given: "given_options h swcOptions = Inr given" and typed: "typed_options given"
  shows "returns (buildSwcTransformOpts h swcOptions)"
proof -
  let ?j = "''jsc''"
  from typed have nn: "\<not> nullish given" by (simp add: typed_options_def)
  then obtain c0 where c0: "restWithout ''experimental'' given = Inr c0"
    by (simp add: restWithout_def)
  have c0_obj: "isObject c0" using c0 by (rule restWithout_JObj)
  have c0_jsc: "optProp c0 ?j = optProp given ?j"
    using restWithout_optProp [OF c0] by (simp add: ident_keys)
  then have c0_path: "getPath c0 (?j # ks) = getPath given (?j # ks)" for ks by simp
  \<comment> \<open>the default target\<close>
  let ?cond = "\<not> truthy (optProp c0 ''env'') \<and> \<not> truthy (optProp (optProp c0 ?j) ''target'')"
  have "walkable c0 [?j]"
    using c0_obj c0_jsc typed by (auto simp: typed_options_def)
  then obtain s1 where s1: "set_loop c0 [?j] ''target'' (JStr ''es2016'') = Inr s1" "isObject s1"
    using set_loop_walkable by blast
  define c1 where "c1 = (if ?cond then s1 else c0)"
  have c1: "(if ?cond then set_loop c0 [?j] ''target'' (JStr ''es2016'') else Inr c0) = Inr c1"
    by (simp add: c1_def s1)
  have c1_obj: "isObject c1" by (simp add: c1_def s1 c0_obj)
  have c1_path: "getPath c1 (?j # k # ks) = getPath c0 (?j # k # ks)" if "k \<noteq> ''target''" for k ks
    using frame_second [OF s1(1) that] by (simp add: c1_def)
  have c1_jsc: "nullish (optProp c1 ?j) \<or> isObject (optProp c1 ?j)"
  proof (cases ?cond)
    case True
    have "getPath s1 [?j, ''target''] = JStr ''es2016''" using set_loop_get [OF s1(1)] by simp
    then have "optProp (optProp s1 ?j) ''target'' \<noteq> JUndefined" by simp
    then have "isObject (optProp s1 ?j)" by (rule optProp_defined)
    with True show ?thesis by (simp add: c1_def)
  next
    case False
    with typed c0_jsc show ?thesis by (auto simp: c1_def typed_options_def)
  qed
  \<comment> \<open>the marker\<close>
  have "walkable c1 [?j, ''transform'', ''hidden'']"
    using c1_obj c1_jsc c1_path [of "''transform''" "[]"] c1_path [of "''transform''" "[''hidden'']"]
      c0_path [of "[''transform'']"] c0_path [of "[''transform'', ''hidden'']"] typed
    by (auto simp: typed_options_def)
  then obtain c2 where c2: "set_loop c1 [?j, ''transform'', ''hidden''] ''jest'' (JBool True) = Inr c2"
    and c2_obj: "isObject c2"
    using set_loop_walkable by blast
  have c2_marker: "getPath c2 [?j, ''transform'', ''hidden'', ''jest''] = JBool True"
    using set_loop_get [OF c2] by simp
  have c2_path: "getPath c2 (?j # k # ks) = getPath c1 (?j # k # ks)" if "k \<noteq> ''transform''" for k ks
    using frame_under [OF c2 that] .
  \<comment> \<open>the source maps\<close>
  have "walkable c2 []" using c2_obj by simp
  then obtain s3 where s3: "set_loop c2 [] ''sourceMaps'' (JStr ''inline'') = Inr s3" "isObject s3"
    using set_loop_walkable by blast
  define c3 where "c3 = (if \<not> truthy (optProp c2 ''sourceMaps'') then s3 else c2)"
  have c3: "(if \<not> truthy (optProp c2 ''sourceMaps'')
             then set_loop c2 [] ''sourceMaps'' (JStr ''inline'') else Inr c2) = Inr c3"
    by (simp add: c3_def s3)
  have c3_obj: "isObject c3" by (simp add: c3_def s3 c2_obj)
  have c3_path: "getPath c3 (?j # ks) = getPath c2 (?j # ks)" for ks
    using frame_top [OF s3(1), of ?j ks] by (simp add: c3_def)
  \<comment> \<open>the base URL\<close>
  let ?b = "optProp (optProp c3 ?j) ''baseUrl''"
  have b: "?b = getPath given [?j, ''baseUrl'']"
    using c3_path [of "[''baseUrl'']"] c2_path [of "''baseUrl''" "[]"] c1_path [of "''baseUrl''" "[]"]
      c0_path [of "[''baseUrl'']"] by simp
  have last: "\<exists>opts. (if truthy ?b
      then bindE (resolve_arg h ?b) (\<lambda>p. set_loop c3 [?j] ''baseUrl'' p)
      else Inr c3) = Inr opts"
  proof (cases "truthy ?b")
    case False
    then show ?thesis by simp
  next
    case True
    with typed b have "isString ?b" by (simp add: typed_options_def)
    then obtain s where str: "?b = JStr s" by (cases ?b) simp_all
    have "getPath c3 [?j, ''transform'', ''hidden'', ''jest''] = JBool True"
      using c3_path [of "[''transform'', ''hidden'', ''jest'']"] c2_marker by simp
    then have "isObject (optProp c3 ?j)"
      by (cases "optProp c3 ?j") (simp_all add: optProp_def)
    with c3_obj have "walkable c3 [?j]" by simp
    then obtain opts where "set_loop c3 [?j] ''baseUrl'' (JStr (path_resolve h s)) = Inr opts"
      using set_loop_walkable by blast
    with True str show ?thesis by (simp add: resolve_arg_def bindE_def)
  qed
  then obtain opts where opts: "(if truthy ?b
      then bindE (resolve_arg h ?b) (\<lambda>p. set_loop c3 [?j] ''baseUrl'' p)
      else Inr c3) = Inr opts" ..
  have "buildSwcTransformOpts h swcOptions = Inr opts"
    unfolding buildSwcTransformOpts_def set_js_paths
    using given c0 c1 c2 c3 opts by (simp add: bindE_def)
  then show ?thesis by (simp add: returns_def)
qed

lemma setProp_put: "isObject obj \<Longrightarrow> setProp obj k v = Inr (put obj k v)"
  by (cases obj) simp_all

lemma isObject_put: "isObject obj \<Longrightarrow> isObject (put obj k v)"
  by (cases obj) simp_all

lemma optProp_put:
  "isObject obj \<Longrightarrow> optProp (put obj k v) k' = (if k' = k then v else optProp obj k')"
  by (cases obj) (simp_all add: optProp_def lookup_update)

lemma index0_returns: "\<not> nullish x \<Longrightarrow> returns (index0 x)"
  by (cases x) (simp_all add: returns_def)

lemma some_coverage_returns: "\<forall>x \<in> set es. \<not> nullish x \<Longrightarrow> returns (some_coverage es)"
proof (induction es)
  case Nil
  show ?case by (simp add: returns_def)
next
  case (Cons x es)
  then obtain v where "index0 x = Inr v" using index0_returns [of x] by (auto simp: returns_Inr)
  with Cons show ?case by (auto simp: bindE_def returns_def)
qed

lemma already_inserted_returns:
  "descriptors (getPath opts [''jsc'', ''experimental'', ''plugins'']) \<Longrightarrow> returns (already_inserted opts)"
  by (auto simp: already_inserted_def descriptors_def Let_def returns_def [of "Inr _"]
      split: jsv.splits dest!: some_coverage_returns)

lemma descriptors_array:
  assumes "descriptors p" "isArray p"
  obtains es ps where "p = JArr es ps" "\<forall>x \<in> set es. \<not> nullish x"
  using assms by (cases p) (auto simp: descriptors_def)

lemma insert_returns:
  assumes "instrumentable opts"
  shows "\<exists>opts'. insertInstrumentationOptions jo can opts io = Inr opts' \<and> instrumentable opts'"
proof -
  from assms have obj: "isObject opts"
    and j: "\<not> truthy (optProp opts ''jsc'') \<or> isObject (optProp opts ''jsc'')"
    and e: "\<not> truthy (optProp (optProp opts ''jsc'') ''experimental'')
            \<or> isObject (optProp (optProp opts ''jsc'') ''experimental'')"
    and d: "descriptors (getPath opts [''jsc'', ''experimental'', ''plugins''])"
    by (simp_all add: instrumentable_def)
  from already_inserted_returns [OF d] obtain found where found: "already_inserted opts = Inr found"
    by (auto simp: returns_Inr)
  show ?thesis
  proof (cases "instrument jo \<and> can \<and> \<not> found")
    case False
    with found assms show ?thesis
      by (auto simp: insertInstrumentationOptions_def bindE_def)
  next
    case True
    let ?j0 = "optProp opts ''jsc''"
    define opts1 where "opts1 = (if \<not> truthy ?j0 then put opts ''jsc'' (JObj []) else opts)"
    define jsc where "jsc = (if \<not> truthy ?j0 then JObj [] else ?j0)"
    let ?e0 = "optProp jsc ''experimental''"
    define jsc1 where "jsc1 = (if \<not> truthy ?e0 then put jsc ''experimental'' (JObj []) else jsc)"
    define exp where "exp = (if \<not> truthy ?e0 then JObj [] else ?e0)"
    let ?p0 = "optProp exp ''plugins''"
    define exp1 where "exp1 = (if \<not> isArray ?p0 then put exp ''plugins'' (JArr [] []) else exp)"
    define plugins where "plugins = (if \<not> isArray ?p0 then JArr [] [] else ?p0)"
    have o1: "isObject opts1" by (simp add: opts1_def obj isObject_put)
    have jo: "isObject jsc" using j by (auto simp: jsc_def)
    have o1j: "optProp opts1 ''jsc'' = jsc" by (simp add: opts1_def jsc_def optProp_put obj)
    have e0: "?e0 = optProp ?j0 ''experimental''"
      by (simp add: jsc_def falsy_optProp optProp_empty)
    have eo: "isObject exp" using e e0 by (auto simp: exp_def)
    have j1: "isObject jsc1" by (simp add: jsc1_def jo isObject_put)
    have j1e: "optProp jsc1 ''experimental'' = exp" by (simp add: jsc1_def exp_def optProp_put jo)
    have p0: "?p0 = getPath opts [''jsc'', ''experimental'', ''plugins'']"
      by (simp add: exp_def e0 falsy_optProp optProp_empty)
    have x1: "isObject exp1" by (simp add: exp1_def eo isObject_put)
    have x1p: "optProp exp1 ''plugins'' = plugins" by (simp add: exp1_def plugins_def optProp_put eo)
    obtain es ps where pl: "plugins = JArr es ps" and nn: "\<forall>x \<in> set es. \<not> nullish x"
    proof (cases "isArray ?p0")
      case True
      with d p0 show ?thesis by (auto simp: plugins_def elim!: descriptors_array intro: that)
    next
      case False
      then show ?thesis by (auto simp: plugins_def intro: that)
    qed
    let ?plugins' = "JArr (es @ [coverage_entry io]) ps"
    let ?exp2 = "put exp1 ''plugins'' ?plugins'"
    let ?jsc2 = "put jsc1 ''experimental'' ?exp2"
    let ?opts' = "put opts1 ''jsc'' ?jsc2"
    have s1: "getProp opts ''jsc'' = Inr ?j0" using obj by (rule isObject_getProp)
    have s2: "(if \<not> truthy ?j0 then setProp opts ''jsc'' (JObj []) else Inr opts) = Inr opts1"
      by (simp add: opts1_def setProp_put obj)
    have s3: "getProp opts1 ''jsc'' = Inr jsc" using isObject_getProp [OF o1] o1j by simp
    have s4: "getProp jsc ''experimental'' = Inr ?e0" using jo by (rule isObject_getProp)
    have s5: "(if \<not> truthy ?e0 then setProp jsc ''experimental'' (JObj []) else Inr jsc) = Inr jsc1"
      by (simp add: jsc1_def setProp_put jo)
    have s6: "getProp jsc1 ''experimental'' = Inr exp" using isObject_getProp [OF j1] j1e by simp
    have s7: "getProp exp ''plugins'' = Inr ?p0" using eo by (rule isObject_getProp)
    have s8: "(if \<not> isArray ?p0 then setProp exp ''plugins'' (JArr [] []) else Inr exp) = Inr exp1"
      by (simp add: exp1_def setProp_put eo)
    have s9: "getProp exp1 ''plugins'' = Inr plugins" using isObject_getProp [OF x1] x1p by simp
    have s10: "push plugins (coverage_entry io) = Inr ?plugins'" by (simp add: pl)
    have s11: "setProp exp1 ''plugins'' ?plugins' = Inr ?exp2" using x1 by (rule setProp_put)
    have s12: "setProp jsc1 ''experimental'' ?exp2 = Inr ?jsc2" using j1 by (rule setProp_put)
    have s13: "setProp opts1 ''jsc'' ?jsc2 = Inr ?opts'" using o1 by (rule setProp_put)
    have should: "(instrument jo \<and> can) = True" and nf: "found = False" using True by simp_all
    have run: "insertInstrumentationOptions jo can opts io = Inr ?opts'"
      by (simp only: insertInstrumentationOptions_def Let_def bindE_def found should nf
          s1 s2 s3 s4 s5 s6 s7 s8 s9 s10 s11 s12 s13 sum.case if_True if_False simp_thms)
    have "\<not> nullish (coverage_entry io)" by (simp add: coverage_entry_def)
    with nn have "descriptors ?plugins'" by (simp add: descriptors_def)
    then have "instrumentable ?opts'"
      by (simp add: instrumentable_def isObject_put optProp_put o1 j1 x1)
    with run show ?thesis by blast
  qed
qed

lemma overlay_returns: "isObject opts \<Longrightarrow> returns (overlay opts moduleType filename)"
  by (simp add: overlay_def isObject_getProp bindE_def returns_def)

lemma perform_returns:
  assumes "instrumentable (computedSwcOptions t)"
  shows "returns (perform t c)" and "instrumentable (computedSwcOptions (after t c))"
proof -
  from insert_returns [OF assms] obtain opts' where
    ins: "insertInstrumentationOptions (jestOptions_of c) (canInstrument t) (computedSwcOptions t)
       (instrumentOptions t) = Inr opts'" and ok: "instrumentable opts'"
    by blast
  from ok have obj: "isObject opts'" by (simp add: instrumentable_def)
  have ov: "\<exists>ov. overlay opts' ty f = Inr ov" for ty f
    using overlay_returns [OF obj, of ty f] by (simp add: returns_Inr)
  have "\<exists>r. perform t c = Inr (t\<lparr>computedSwcOptions := opts'\<rparr>, r)"
  proof (cases c)
    case (Process src f jo)
    from ov obtain v where "overlay opts' (if supportsStaticESM jo then ''es6'' else ''commonjs'') f = Inr v"
      by blast
    with ins Process show ?thesis by (simp add: process_def bindE_def)
  next
    case (ProcessAsync src f jo)
    from ov obtain v where "overlay opts' ''es6'' f = Inr v" by blast
    with ins ProcessAsync show ?thesis by (simp add: processAsync_def bindE_def)
  qed
  then obtain r where p: "perform t c = Inr (t\<lparr>computedSwcOptions := opts'\<rparr>, r)" ..
  then show "returns (perform t c)" by (simp add: returns_def)
  from p ok show "instrumentable (computedSwcOptions (after t c))" by (simp add: after_def)
qed

lemma run_instrumentable:
  "instrumentable (computedSwcOptions t) \<Longrightarrow> instrumentable (computedSwcOptions (run t cs))"
  unfolding run_def by (induction cs arbitrary: t) (simp_all add: perform_returns)

lemma set_loop_isObject: "set_loop obj ps key v = Inr obj' \<Longrightarrow> isObject obj'"
proof (cases ps)
  case Nil
  assume "set_loop obj ps key v = Inr obj'"
  with Nil show ?thesis by (cases obj) (auto simp: set_loop.simps)
next
  case (Cons p ps')
  assume "set_loop obj ps key v = Inr obj'"
  with Cons obtain obj1 child' where "setProp obj1 p child' = Inr obj'"
    by (auto simp: set_loop.simps bindE_Inr)
  then show ?thesis by (cases obj1) auto
qed

lemma resolver_frame:
  assumes "buildSwcTransformOpts h swcOptions = Inr opts"
    and "given_options h swcOptions = Inr given"
    and "k \<noteq> ''target''" "k \<noteq> ''transform''" "k \<noteq> ''baseUrl''"
  shows "getPath opts (''jsc'' # k # ks) = getPath given (''jsc'' # k # ks)"
    and "isObject opts" and "isObject (optProp opts ''jsc'')"
proof -
  from assms(1,2) obtain c0 c1 c2 c3 where
    c0: "restWithout ''experimental'' given = Inr c0" and
    c1: "(if \<not> truthy (optProp c0 ''env'') \<and> \<not> truthy (optProp (optProp c0 ''jsc'') ''target'')
      then set_loop c0 [''jsc''] ''target'' (JStr ''es2016'') else Inr c0) = Inr c1" and
    c2: "set_loop c1 [''jsc'', ''transform'', ''hidden''] ''jest'' (JBool True) = Inr c2" and
    c3: "(if \<not> truthy (optProp c2 ''sourceMaps'')
      then set_loop c2 [] ''sourceMaps'' (JStr ''inline'') else Inr c2) = Inr c3" and
    opts: "(if truthy (optProp (optProp c3 ''jsc'') ''baseUrl'')
      then bindE (resolve_arg h (optProp (optProp c3 ''jsc'') ''baseUrl'')) (\<lambda>p.
           set_loop c3 [''jsc''] ''baseUrl'' p)
      else Inr c3) = Inr opts"
    by (auto elim!: build_steps)
  let ?p = "''jsc'' # k # ks"
  have "optProp c0 ''jsc'' = optProp given ''jsc''"
    using restWithout_optProp [OF c0] by (simp add: ident_keys)
  then have g0: "getPath c0 ?p = getPath given ?p" by simp
  have g1: "getPath c1 ?p = getPath c0 ?p"
  proof (cases "\<not> truthy (optProp c0 ''env'') \<and> \<not> truthy (optProp (optProp c0 ''jsc'') ''target'')")
    case True
    with c1 have "set_loop c0 [''jsc''] ''target'' (JStr ''es2016'') = Inr c1" by simp
    from frame_second [OF this assms(3)] show ?thesis .
  next
    case False
    with c1 show ?thesis by auto
  qed
  have g2: "getPath c2 ?p = getPath c1 ?p" using frame_under [OF c2 assms(4)] .
  have c2_obj: "isObject c2" using c2 by (rule set_loop_isObject)
  have g3: "getPath c3 (''jsc'' # qs) = getPath c2 (''jsc'' # qs) \<and> isObject c3" for qs
  proof (cases "truthy (optProp c2 ''sourceMaps'')")
    case True
    with c3 c2_obj show ?thesis by simp
  next
    case False
    with c3 have s: "set_loop c2 [] ''sourceMaps'' (JStr ''inline'') = Inr c3" by simp
    from frame_top [OF s, of "''jsc''" qs] set_loop_isObject [OF s] show ?thesis by simp
  qed
  have g4: "getPath opts ?p = getPath c3 ?p \<and> isObject opts
      \<and> getPath opts [''jsc'', ''transform'', ''hidden'', ''jest'']
          = getPath c3 [''jsc'', ''transform'', ''hidden'', ''jest'']"
  proof (cases "truthy (optProp (optProp c3 ''jsc'') ''baseUrl'')")
    case True
    with opts obtain p where s: "set_loop c3 [''jsc''] ''baseUrl'' p = Inr opts"
      by (auto simp: bindE_Inr)
    from frame_second [OF s assms(5)] frame_second [OF s, of "''transform''" "[''hidden'', ''jest'']"]
      set_loop_isObject [OF s]
    show ?thesis by simp
  next
    case False
    with opts g3 show ?thesis by simp
  qed
  from g0 g1 g2 g3 [of "k # ks"] g4 show "getPath opts ?p = getPath given ?p" by simp
  from g4 show "isObject opts" by simp
  have "getPath c2 [''jsc'', ''transform'', ''hidden'', ''jest''] = JBool True"
    using set_loop_get [OF c2] by simp
  with g3 [of "[''transform'', ''hidden'', ''jest'']"] g4
  have "getPath opts [''jsc'', ''transform'', ''hidden'', ''jest''] = JBool True" by simp
  then have "optProp (optProp opts ''jsc'') ''transform'' \<noteq> JUndefined"
    by (auto simp: optProp_undefined)
  then show "isObject (optProp opts ''jsc'')" by (rule optProp_defined)
qed

theorem transform_calls_return:
  assumes "createTransformer h swcTransformOpts = Inr t"
    and "given_options h swcTransformOpts = Inr given"
    and "typed_plugins given"
  shows "returns (perform (run t cs) c)"
proof -
  from assms(1) have b: "buildSwcTransformOpts h swcTransformOpts = Inr (computedSwcOptions t)"
    by (rule createTransformer_Inr)
  have "getPath (computedSwcOptions t) (''jsc'' # ''experimental'' # ks)
      = getPath given (''jsc'' # ''experimental'' # ks)" for ks
    by (rule resolver_frame(1) [OF b assms(2)]) simp_all
  from this [of "[]"] this [of "[''plugins'']"] resolver_frame(2,3) [OF b assms(2), of "''experimental''"] assms(3)
  have "instrumentable (computedSwcOptions t)"
    by (simp add: instrumentable_def typed_plugins_def)
  then have "instrumentable (computedSwcOptions (run t cs))" by (rule run_instrumentable)
  then show ?thesis by (rule perform_returns)
qed

section \<open>The transform operations on the store\<close>

text \<open>
  The two models can be compared on concrete runs. On the instance of the examples, in
  whose store every object is reachable along one path only, they give the same shared
  options before and after two calls that request coverage:
\<close>

lemma store_agrees_with_values:
  "tree_of 8 coverage_store (computedSwcOptions_ref coverage_instance_ref) = computedSwcOptions coverage_instance \<and>
   tree_of 8 coverage_store (instrumentOptions_ref coverage_instance_ref) = instrumentOptions coverage_instance \<and>
   tree_of 8
     (run_ref coverage_instance_ref
        [Process ''export {}'' ''a.ts'' with_coverage, ProcessAsync ''export {}'' ''b.ts'' with_coverage]
        coverage_store)
     (computedSwcOptions_ref coverage_instance_ref)
   = computedSwcOptions (run coverage_instance
        [Process ''export {}'' ''a.ts'' with_coverage, ProcessAsync ''export {}'' ''b.ts'' with_coverage])"
  by code_simp

declare getPath_ref.simps [simp del]

subsection \<open>What a call leaves behind in the store\<close>

text \<open>
  Every statement of the operations changes the store as \<open>accumulates\<close> says, whichever
  objects are shared and however the statement ends; the relation is transitive, so a
  call and a sequence of calls do too.
\<close>

declare getPath_ref.simps [simp del]

lemma lookup_ref_update: "lookup_ref (AList.update k v ps) k' = (if k' = k then v else lookup_ref ps k')"
  by (simp add: lookup_ref_def update_conv')

lemma named_assign: "named (assign k v c) = AList.update k v (named c)"
  by (cases c) simp_all

lemma elements_assign: "elements (assign k v c) = elements c"
  by (cases c) simp_all

lemma isArrayCell_assign: "isArrayCell (assign k v c) = isArrayCell c"
  by (cases c) simp_all

lemma accumulates_refl: "accumulates opts s s"
  by (simp add: accumulates_def)

lemma isArray_ref_in: "isArray_ref s v \<Longrightarrow> \<exists>a. v = VRef a \<and> a < length s \<and> isArrayCell (s ! a)"
  by (cases v) (auto simp: isArray_ref_def cell_of_def split: if_splits)

lemma accumulates_trans:
  assumes 1: "accumulates opts s s'" and 2: "accumulates opts s' s''"
  shows "accumulates opts s s''"
proof -
  let ?p = "[''jsc'', ''experimental'', ''plugins'']"
  from 1 2 have len: "length s \<le> length s'" "length s' \<le> length s''"
    by (simp_all add: accumulates_def)
  have kind: "isArrayCell (s'' ! a) = isArrayCell (s ! a)" if "a < length s" for a
    using 1 2 that len by (simp add: accumulates_def)
  have l1: "getPath_ref s'' opts [''jsc''] = getPath_ref s opts [''jsc'']"
    if "truthy_ref (getPath_ref s opts [''jsc''])"
    using 1 2 that by (simp add: accumulates_def)
  have l2: "getPath_ref s'' opts [''jsc'', ''experimental''] = getPath_ref s opts [''jsc'', ''experimental'']"
    if "truthy_ref (getPath_ref s opts [''jsc'', ''experimental''])"
    using 1 2 that by (simp add: accumulates_def)
  have l3: "getPath_ref s'' opts ?p = getPath_ref s opts ?p" if arr: "isArray_ref s (getPath_ref s opts ?p)"
  proof -
    from 1 arr have same: "getPath_ref s' opts ?p = getPath_ref s opts ?p" by (simp add: accumulates_def)
    from isArray_ref_in [OF arr] obtain a where a: "getPath_ref s opts ?p = VRef a" "a < length s" "isArrayCell (s ! a)"
      by blast
    with 1 have "isArrayCell (s' ! a)" by (simp add: accumulates_def)
    with a len have "isArray_ref s' (getPath_ref s' opts ?p)"
      by (simp add: same isArray_ref_def cell_of_def)
    with 2 have "getPath_ref s'' opts ?p = getPath_ref s' opts ?p" by (simp add: accumulates_def)
    with same show ?thesis by simp
  qed
  have c3: "container opts s'' a k"
    if a: "a < length s" and ch: "lookup_ref (named (s'' ! a)) k \<noteq> lookup_ref (named (s ! a)) k" for a k
  proof (cases "lookup_ref (named (s' ! a)) k = lookup_ref (named (s ! a)) k")
    case True
    with ch have "lookup_ref (named (s'' ! a)) k \<noteq> lookup_ref (named (s' ! a)) k" by simp
    with 2 a len show ?thesis by (simp add: accumulates_def)
  next
    case False
    with 1 a have c: "container opts s' a k" by (simp add: accumulates_def)
    from 2 have p1: "truthy_ref (getPath_ref s' opts [''jsc'']) \<longrightarrow>
        getPath_ref s'' opts [''jsc''] = getPath_ref s' opts [''jsc'']"
      and p2: "truthy_ref (getPath_ref s' opts [''jsc'', ''experimental'']) \<longrightarrow>
        getPath_ref s'' opts [''jsc'', ''experimental''] = getPath_ref s' opts [''jsc'', ''experimental'']"
      by (simp_all add: accumulates_def)
    from c consider "k = ''jsc''" "opts = VRef a"
      | "k = ''experimental''" "getPath_ref s' opts [''jsc''] = VRef a"
      | "k = ''plugins''" "getPath_ref s' opts [''jsc'', ''experimental''] = VRef a"
      unfolding container_def by blast
    then show ?thesis
    proof cases
      case 1
      then show ?thesis by (simp add: container_def)
    next
      case 2
      with p1 have "getPath_ref s'' opts [''jsc''] = VRef a" by simp
      with 2 show ?thesis unfolding container_def by blast
    next
      case 3
      with p2 have "getPath_ref s'' opts [''jsc'', ''experimental''] = VRef a" by simp
      with 3 show ?thesis unfolding container_def by blast
    qed
  qed
  have d0: "index0_ref s'' x = Inr (VStr coverage_plugin)"
    if x: "index0_ref s' x = Inr (VStr coverage_plugin)" for x
  proof (cases x)
    case (VRef b)
    have b: "b < length s'"
    proof (rule ccontr)
      assume "\<not> b < length s'"
      with x VRef show False by (simp add: cell_of_def lookup_ref_def coverage_plugin_def)
    qed
    from 2 b obtain n where n: "elements (s'' ! b) = elements (s' ! b) @ n"
      unfolding accumulates_def by blast
    from 2 b have k: "isArrayCell (s'' ! b) = isArrayCell (s' ! b)" by (simp add: accumulates_def)
    have "\<not> container opts s'' b ''0''" by (simp add: container_def)
    with 2 b have z: "lookup_ref (named (s'' ! b)) ''0'' = lookup_ref (named (s' ! b)) ''0''"
      unfolding accumulates_def by blast
    from b len have b': "b < length s''" by simp
    show ?thesis
    proof (cases "s' ! b")
      case (Object ps)
      with k obtain ps' where "s'' ! b = Object ps'" by (cases "s'' ! b") simp_all
      with z x VRef Object b b' show ?thesis by (simp add: cell_of_def)
    next
      case (Array es ps)
      with k obtain es' ps' where c: "s'' ! b = Array es' ps'" by (cases "s'' ! b") simp_all
      with n Array have "es' = es @ n" by simp
      with x VRef Array c b b' show ?thesis by (cases es) (simp_all add: cell_of_def coverage_plugin_def)
    qed
  next
    case (VStr t)
    with x show ?thesis by simp
  qed (use x in simp_all)
  have c4: "\<exists>new. elements (s'' ! a) = elements (s ! a) @ new \<and>
        (\<forall>x \<in> set new. index0_ref s'' x = Inr (VStr coverage_plugin)) \<and>
        (new \<noteq> [] \<longrightarrow> getPath_ref s'' opts ?p = VRef a)" if a: "a < length s" for a
  proof -
    from 1 a obtain n1 where n1: "elements (s' ! a) = elements (s ! a) @ n1"
      "\<forall>x \<in> set n1. index0_ref s' x = Inr (VStr coverage_plugin)"
      "n1 \<noteq> [] \<longrightarrow> getPath_ref s' opts ?p = VRef a"
      unfolding accumulates_def by blast
    from 2 have "\<forall>a<length s'. \<exists>new. elements (s'' ! a) = elements (s' ! a) @ new \<and>
        (\<forall>x \<in> set new. index0_ref s'' x = Inr (VStr coverage_plugin)) \<and>
        (new \<noteq> [] \<longrightarrow> getPath_ref s'' opts ?p = VRef a)"
      unfolding accumulates_def by (elim conjE)
    moreover from a len have "a < length s'" by simp
    ultimately obtain n2 where n2: "elements (s'' ! a) = elements (s' ! a) @ n2"
      "\<forall>x \<in> set n2. index0_ref s'' x = Inr (VStr coverage_plugin)"
      "n2 \<noteq> [] \<longrightarrow> getPath_ref s'' opts ?p = VRef a"
      by blast
    have "getPath_ref s'' opts ?p = VRef a" if ne: "n1 @ n2 \<noteq> []"
    proof (cases "n2 = []")
      case False
      with n2 show ?thesis by simp
    next
      case True
      with ne have n: "n1 \<noteq> []" by simp
      with n1 have p: "getPath_ref s' opts ?p = VRef a" by simp
      from n n1 have "isArrayCell (s' ! a)" by (cases "s' ! a") simp_all
      with a len p have "isArray_ref s' (getPath_ref s' opts ?p)"
        by (simp add: isArray_ref_def cell_of_def)
      with 2 have "getPath_ref s'' opts ?p = getPath_ref s' opts ?p" by (simp add: accumulates_def)
      with p show ?thesis by simp
    qed
    moreover from n1(2) n2(2) d0 have "\<forall>x \<in> set (n1 @ n2). index0_ref s'' x = Inr (VStr coverage_plugin)"
      by auto
    ultimately show ?thesis using n1(1) n2(1) by (intro exI [of _ "n1 @ n2"]) simp
  qed
  from len have "length s \<le> length s''" by simp
  with kind c3 c4 l1 l2 l3 show ?thesis
    unfolding accumulates_def by (intro conjI allI impI) assumption+
qed

lemma in_store_mono: "in_store s v \<Longrightarrow> length s \<le> length s' \<Longrightarrow> in_store s' v"
  by (cases v) simp_all

lemma keeps_returnS: "keeps opts (returnS x)"
  by (simp add: keeps_def returnS_def accumulates_refl)

lemma keeps_readS: "keeps opts (readS f)"
  by (simp add: keeps_def readS_def accumulates_refl)

lemma keeps_bindS:
  assumes "keeps opts m" and "\<And>x. keeps opts (f x)"
  shows "keeps opts (bindS m f)"
  unfolding keeps_def
proof (intro allI impI)
  fix s r s'
  assume i: "in_store s opts" and b: "bindS m f s = (r, s')"
  obtain r1 s1 where m: "m s = (r1, s1)" by (cases "m s")
  with assms(1) i have a1: "accumulates opts s s1" by (simp add: keeps_def)
  then have "length s \<le> length s1" by (simp add: accumulates_def)
  with i have i1: "in_store s1 opts" by (rule in_store_mono)
  show "accumulates opts s s'"
  proof (cases r1)
    case (Inl e)
    with b m have "s' = s1" by (simp add: bindS_def)
    with a1 show ?thesis by simp
  next
    case (Inr x)
    with b m have "f x s1 = (r, s')" by (simp add: bindS_def)
    with assms(2) [of x] i1 have "accumulates opts s1 s'" by (simp add: keeps_def)
    with a1 show ?thesis by (rule accumulates_trans)
  qed
qed

lemma keeps_if: "keeps opts a \<Longrightarrow> keeps opts b \<Longrightarrow> keeps opts (if c then a else b)"
  by simp

lemma create_jsc_effect:
  assumes "create_jsc opts s = (r, s')"
  shows "s' = s \<or> s' = s @ [Object []] \<or>
         (\<exists>a. opts = VRef a \<and> \<not> truthy_ref (lookup_ref (named (cell_of s a)) ''jsc'') \<and>
              s' = (s @ [Object []])[a := assign ''jsc'' (VRef (length s)) (cell_of (s @ [Object []]) a)])"
  using assms
  by (cases opts) (auto simp: create_jsc_def bindS_def readS_def alloc_def setProp_ref_def returnS_def
      split: if_splits)

lemma optProp_ref_VRef: "optProp_ref s (VRef a) k = lookup_ref (named (cell_of s a)) k"
  by (simp add: optProp_ref_def)

lemma optProp_ref_defined:
  "optProp_ref s v k \<noteq> VUndefined \<Longrightarrow> \<exists>a. v = VRef a \<and> a < length s"
  by (cases v) (auto simp: optProp_ref_def cell_of_def lookup_ref_def split: if_splits)

lemma optProp_ref_assign:
  assumes "b < length s"
  shows "optProp_ref ((s @ cs)[a := assign k v ((s @ cs) ! a)]) (VRef b) k'
           = (if b = a \<and> k' = k then v else optProp_ref s (VRef b) k')"
  using assms
  by (auto simp: optProp_ref_VRef cell_of_def nth_list_update nth_append named_assign lookup_ref_update)

lemma getPath_ref_one: "getPath_ref s v [k] = optProp_ref s v k"
  by (simp add: getPath_ref.simps)

lemma getPath_ref_two: "getPath_ref s v [k, k'] = optProp_ref s (optProp_ref s v k) k'"
  by (simp add: getPath_ref.simps)

lemma getPath_ref_three: "getPath_ref s v [k, k', k''] = optProp_ref s (optProp_ref s (optProp_ref s v k) k') k''"
  by (simp add: getPath_ref.simps)

lemma fresh_assign_accumulates:
  assumes i: "in_store s opts"
    and a: "a < length s"
    and c: "container opts s a k"
    and old: "if k = ''plugins'' then \<not> isArray_ref s (lookup_ref (named (s ! a)) k)
              else \<not> truthy_ref (lookup_ref (named (s ! a)) k)"
  shows "accumulates opts s ((s @ cs)[a := assign k v ((s @ cs) ! a)])"
proof -
  let ?s = "(s @ cs)[a := assign k v ((s @ cs) ! a)]"
  have nth: "?s ! b = (if b = a then assign k v (s ! a) else s ! b)" if "b < length s" for b
    using that a by (simp add: nth_list_update nth_append)
  have rd: "optProp_ref ?s (VRef b) k' = (if b = a \<and> k' = k then v else optProp_ref s (VRef b) k')"
    if "b < length s" for b k'
    using that by (rule optProp_ref_assign)
  have cur: "optProp_ref s (VRef a) k = lookup_ref (named (s ! a)) k"
    using a by (simp add: optProp_ref_VRef cell_of_def)
  have falsy: "optProp_ref s x k' = VUndefined" if "\<not> truthy_ref x" for x k'
    using that by (cases x) (simp_all add: optProp_ref_def)
  have notarr: "\<not> isArray_ref s VUndefined" by (simp add: isArray_ref_def)
  have undef: "optProp_ref s VUndefined k' = VUndefined" for k' by (simp add: optProp_ref_def)
  have len: "length s \<le> length ?s" by simp
  have kind: "\<forall>b<length s. isArrayCell (?s ! b) = isArrayCell (s ! b)"
    by (simp add: nth isArrayCell_assign)
  have elems: "\<forall>b<length s. \<exists>new. elements (?s ! b) = elements (s ! b) @ new \<and>
        (\<forall>x \<in> set new. index0_ref ?s x = Inr (VStr coverage_plugin)) \<and>
        (new \<noteq> [] \<longrightarrow> getPath_ref ?s opts [''jsc'', ''experimental'', ''plugins''] = VRef b)"
    by (simp add: nth elements_assign)
  have changed: "b = a \<and> k' = k"
    if "b < length s" "lookup_ref (named (?s ! b)) k' \<noteq> lookup_ref (named (s ! b)) k'" for b k'
    using that by (auto simp: nth named_assign lookup_ref_update split: if_splits)
  from c consider (jsc) "k = ''jsc''" "opts = VRef a"
    | (experimental) "k = ''experimental''" "optProp_ref s opts ''jsc'' = VRef a"
    | (plugins) "k = ''plugins''" "optProp_ref s (optProp_ref s opts ''jsc'') ''experimental'' = VRef a"
    unfolding container_def getPath_ref_one getPath_ref_two by blast
  then show ?thesis
  proof cases
    case jsc
    from old jsc cur have f: "\<not> truthy_ref (optProp_ref s opts ''jsc'')" by simp
    have c3: "\<forall>b<length s. \<forall>k'. lookup_ref (named (?s ! b)) k' \<noteq> lookup_ref (named (s ! b)) k'
        \<longrightarrow> container opts ?s b k'"
      using changed jsc by (auto simp: container_def)
    from f have l1: "\<not> truthy_ref (getPath_ref s opts [''jsc''])" by (simp add: getPath_ref_one)
    from f have l2: "\<not> truthy_ref (getPath_ref s opts [''jsc'', ''experimental''])"
      by (simp add: getPath_ref_two falsy)
    from f have l3: "\<not> isArray_ref s (getPath_ref s opts [''jsc'', ''experimental'', ''plugins''])"
      by (simp add: getPath_ref_three falsy undef notarr)
    from len kind c3 elems l1 l2 l3 show ?thesis unfolding accumulates_def by blast
  next
    case experimental
    from optProp_ref_defined [of s opts "''jsc''"] experimental obtain a0 where
      a0: "opts = VRef a0" "a0 < length s" by auto
    from old experimental cur have f: "\<not> truthy_ref (optProp_ref s (VRef a) ''experimental'')" by simp
    have j: "optProp_ref ?s opts ''jsc'' = VRef a"
      using experimental a0 rd [of a0 "''jsc''"] by simp
    have c3: "\<forall>b<length s. \<forall>k'. lookup_ref (named (?s ! b)) k' \<noteq> lookup_ref (named (s ! b)) k'
        \<longrightarrow> container opts ?s b k'"
      using changed experimental j by (auto simp: container_def getPath_ref_one)
    have l1: "getPath_ref ?s opts [''jsc''] = getPath_ref s opts [''jsc'']"
      using j experimental by (simp add: getPath_ref_one)
    from f experimental have l2: "\<not> truthy_ref (getPath_ref s opts [''jsc'', ''experimental''])"
      by (simp add: getPath_ref_two)
    from f experimental have l3: "\<not> isArray_ref s (getPath_ref s opts [''jsc'', ''experimental'', ''plugins''])"
      by (simp add: getPath_ref_three falsy undef notarr)
    from len kind c3 elems l1 l2 l3 show ?thesis unfolding accumulates_def by blast
  next
    case plugins
    from optProp_ref_defined [of s "optProp_ref s opts ''jsc''" "''experimental''"] plugins obtain aj where
      aj: "optProp_ref s opts ''jsc'' = VRef aj" "aj < length s" by auto
    from optProp_ref_defined [of s opts "''jsc''"] aj obtain a0 where
      a0: "opts = VRef a0" "a0 < length s" by auto
    from old plugins cur have f: "\<not> isArray_ref s (optProp_ref s (VRef a) ''plugins'')" by simp
    have j: "optProp_ref ?s opts ''jsc'' = VRef aj"
      using plugins aj a0 rd [of a0 "''jsc''"] by simp
    have e: "optProp_ref ?s (VRef aj) ''experimental'' = VRef a"
      using plugins aj rd [of aj "''experimental''"] by simp
    have c3: "\<forall>b<length s. \<forall>k'. lookup_ref (named (?s ! b)) k' \<noteq> lookup_ref (named (s ! b)) k'
        \<longrightarrow> container opts ?s b k'"
      using changed plugins j e by (auto simp: container_def getPath_ref_two)
    have l1: "getPath_ref ?s opts [''jsc''] = getPath_ref s opts [''jsc'']"
      using j aj by (simp add: getPath_ref_one)
    have l2: "getPath_ref ?s opts [''jsc'', ''experimental''] = getPath_ref s opts [''jsc'', ''experimental'']"
      using j e aj plugins by (simp add: getPath_ref_two)
    from f plugins aj have l3: "\<not> isArray_ref s (getPath_ref s opts [''jsc'', ''experimental'', ''plugins''])"
      by (simp add: getPath_ref_three)
    from len kind c3 elems l1 l2 l3 show ?thesis unfolding accumulates_def by blast
  qed
qed

lemma optProp_ref_same:
  assumes "\<forall>b<length s. named (s' ! b) = named (s ! b)" and "length s \<le> length s'" and "in_store s v"
  shows "optProp_ref s' v k = optProp_ref s v k"
  using assms by (cases v) (auto simp: optProp_ref_def cell_of_def)

lemma in_store_defined: "optProp_ref s v k \<noteq> VUndefined \<Longrightarrow> in_store s v"
  by (drule optProp_ref_defined) auto

lemma links_same:
  assumes n: "\<forall>b<length s. named (s' ! b) = named (s ! b)" and l: "length s \<le> length s'"
    and i: "in_store s opts"
  shows "getPath_ref s' opts [''jsc''] = getPath_ref s opts [''jsc'']"
    and "getPath_ref s opts [''jsc'', ''experimental''] \<noteq> VUndefined \<Longrightarrow>
           getPath_ref s' opts [''jsc'', ''experimental''] = getPath_ref s opts [''jsc'', ''experimental'']"
    and "getPath_ref s opts [''jsc'', ''experimental'', ''plugins''] \<noteq> VUndefined \<Longrightarrow>
           getPath_ref s' opts [''jsc'', ''experimental'', ''plugins'']
             = getPath_ref s opts [''jsc'', ''experimental'', ''plugins'']"
proof -
  note same = optProp_ref_same [OF n l]
  show 1: "getPath_ref s' opts [''jsc''] = getPath_ref s opts [''jsc'']"
    by (simp add: getPath_ref_one same i)
  show 2: "getPath_ref s' opts [''jsc'', ''experimental''] = getPath_ref s opts [''jsc'', ''experimental'']"
    if "getPath_ref s opts [''jsc'', ''experimental''] \<noteq> VUndefined"
  proof -
    from that have "in_store s (optProp_ref s opts ''jsc'')"
      unfolding getPath_ref_two by (rule in_store_defined)
    then show ?thesis using 1 by (simp add: getPath_ref_one getPath_ref_two same)
  qed
  show "getPath_ref s' opts [''jsc'', ''experimental'', ''plugins'']
             = getPath_ref s opts [''jsc'', ''experimental'', ''plugins'']"
    if d: "getPath_ref s opts [''jsc'', ''experimental'', ''plugins''] \<noteq> VUndefined"
  proof -
    from d have e: "in_store s (optProp_ref s (optProp_ref s opts ''jsc'') ''experimental'')"
      unfolding getPath_ref_three by (rule in_store_defined)
    from d have "getPath_ref s opts [''jsc'', ''experimental''] \<noteq> VUndefined"
      by (auto simp: getPath_ref_two getPath_ref_three optProp_ref_def)
    from 2 [OF this] e show ?thesis by (simp add: getPath_ref_two getPath_ref_three same)
  qed
qed

lemma truthy_ref_defined: "truthy_ref v \<Longrightarrow> v \<noteq> VUndefined"
  by auto

lemma isArray_ref_defined: "isArray_ref s v \<Longrightarrow> v \<noteq> VUndefined"
  by (auto simp: isArray_ref_def)

lemma fresh_only:
  assumes i: "in_store s opts" and l: "length s \<le> length s'" and same: "\<forall>b<length s. s' ! b = s ! b"
  shows "accumulates opts s s'"
proof -
  from same have n: "\<forall>b<length s. named (s' ! b) = named (s ! b)" by simp
  note p = links_same [OF n l i]
  from same l p(1) p(2) [OF truthy_ref_defined] p(3) [OF isArray_ref_defined]
  show ?thesis unfolding accumulates_def by simp
qed

lemma push_accumulates:
  assumes i: "in_store s opts" and a: "a < length s"
    and p: "getPath_ref s opts [''jsc'', ''experimental'', ''plugins''] = VRef a"
    and c: "s ! a = Array es ps"
    and x: "index0_ref ((s @ cs)[a := Array (es @ [x]) ps]) x = Inr (VStr coverage_plugin)"
  shows "accumulates opts s ((s @ cs)[a := Array (es @ [x]) ps])"
proof -
  let ?s = "(s @ cs)[a := Array (es @ [x]) ps]"
  have nth: "?s ! b = (if b = a then Array (es @ [x]) ps else s ! b)" if "b < length s" for b
    using that a by (simp add: nth_list_update nth_append)
  have n: "\<forall>b<length s. named (?s ! b) = named (s ! b)"
    using c by (simp add: nth)
  have l: "length s \<le> length ?s" by simp
  note q = links_same [OF n l i]
  from p have "getPath_ref s opts [''jsc'', ''experimental'', ''plugins''] \<noteq> VUndefined" by simp
  from q(3) [OF this] p have p': "getPath_ref ?s opts [''jsc'', ''experimental'', ''plugins''] = VRef a"
    by simp
  have kind: "\<forall>b<length s. isArrayCell (?s ! b) = isArrayCell (s ! b)"
    using c by (simp add: nth)
  have c3: "\<forall>b<length s. \<forall>k. lookup_ref (named (?s ! b)) k \<noteq> lookup_ref (named (s ! b)) k
      \<longrightarrow> container opts ?s b k"
    using n by simp
  have c4: "\<forall>b<length s. \<exists>new. elements (?s ! b) = elements (s ! b) @ new \<and>
        (\<forall>x \<in> set new. index0_ref ?s x = Inr (VStr coverage_plugin)) \<and>
        (new \<noteq> [] \<longrightarrow> getPath_ref ?s opts [''jsc'', ''experimental'', ''plugins''] = VRef b)"
  proof (intro allI impI)
    fix b assume b: "b < length s"
    show "\<exists>new. elements (?s ! b) = elements (s ! b) @ new \<and>
        (\<forall>x \<in> set new. index0_ref ?s x = Inr (VStr coverage_plugin)) \<and>
        (new \<noteq> [] \<longrightarrow> getPath_ref ?s opts [''jsc'', ''experimental'', ''plugins''] = VRef b)"
    proof (cases "b = a")
      case True
      with c p' x b show ?thesis by (intro exI [of _ "[x]"]) (simp add: nth)
    next
      case False
      with b show ?thesis by (intro exI [of _ "[]"]) (simp add: nth_append)
    qed
  qed
  from l kind c3 c4 q(1) q(2) [OF truthy_ref_defined] q(3) [OF isArray_ref_defined]
  show ?thesis unfolding accumulates_def by blast
qed

lemma created_accumulates:
  assumes i: "in_store s opts"
    and c: "container opts s a k"
    and old: "if k = ''plugins'' then \<not> isArray_ref s (lookup_ref (named (cell_of s a)) k)
              else \<not> truthy_ref (lookup_ref (named (cell_of s a)) k)"
  shows "accumulates opts s ((s @ [fresh])[a := assign k v (cell_of (s @ [fresh]) a)])"
proof (cases "a < length s")
  case True
  then have eq: "cell_of (s @ [fresh]) a = (s @ [fresh]) ! a" "cell_of s a = s ! a"
    by (simp_all add: cell_of_def)
  from old have "if k = ''plugins'' then \<not> isArray_ref s (lookup_ref (named (s ! a)) k)
              else \<not> truthy_ref (lookup_ref (named (s ! a)) k)"
    by (simp only: eq)
  from fresh_assign_accumulates [OF i True c this, where v = v and cs = "[fresh]"]
  show ?thesis by (simp only: eq)
next
  case False
  then have "\<forall>b<length s. ((s @ [fresh])[a := assign k v (cell_of (s @ [fresh]) a)]) ! b = s ! b"
    by (simp add: nth_list_update nth_append)
  with i show ?thesis by (intro fresh_only) simp_all
qed

lemma create_experimental_effect:
  assumes "create_experimental opts s = (r, s')"
  shows "s' = s \<or> s' = s @ [Object []] \<or>
         (\<exists>a. optProp_ref s opts ''jsc'' = VRef a \<and>
              \<not> truthy_ref (lookup_ref (named (cell_of s a)) ''experimental'') \<and>
              s' = (s @ [Object []])[a := assign ''experimental'' (VRef (length s)) (cell_of (s @ [Object []]) a)])"
proof (cases "getProp_ref s opts ''jsc''")
  case (Inl e)
  with assms show ?thesis by (simp add: create_experimental_def bindS_def readS_def)
next
  case (Inr j)
  then have j: "optProp_ref s opts ''jsc'' = j" by (simp add: optProp_ref_def)
  from assms Inr show ?thesis unfolding j
    by (cases j) (auto simp: create_experimental_def bindS_def readS_def alloc_def setProp_ref_def returnS_def
        split: if_splits)
qed

lemma create_plugins_effect:
  assumes "create_plugins opts s = (r, s')"
  shows "s' = s \<or> s' = s @ [Array [] []] \<or>
         (\<exists>a. optProp_ref s (optProp_ref s opts ''jsc'') ''experimental'' = VRef a \<and>
              \<not> isArray_ref s (lookup_ref (named (cell_of s a)) ''plugins'') \<and>
              s' = (s @ [Array [] []])[a := assign ''plugins'' (VRef (length s)) (cell_of (s @ [Array [] []]) a)])"
proof (cases "getProp_ref s opts ''jsc''")
  case (Inl e)
  with assms show ?thesis by (simp add: create_plugins_def bindS_def readS_def)
next
  case (Inr j)
  then have j: "optProp_ref s opts ''jsc'' = j" by (simp add: optProp_ref_def)
  show ?thesis
  proof (cases "getProp_ref s j ''experimental''")
    case (Inl e)
    with assms Inr show ?thesis by (simp add: create_plugins_def bindS_def readS_def)
  next
    case e: (Inr e)
    then have e': "optProp_ref s j ''experimental'' = e" by (simp add: optProp_ref_def)
    from assms Inr e show ?thesis unfolding j e'
      by (cases e) (auto simp: create_plugins_def bindS_def readS_def alloc_def setProp_ref_def returnS_def
          split: if_splits)
  qed
qed

lemma keeps_create_jsc: "keeps opts (create_jsc opts)"
  unfolding keeps_def
proof (intro allI impI)
  fix s r s'
  assume i: "in_store s opts" and c: "create_jsc opts s = (r, s')"
  from create_jsc_effect [OF c] consider "s' = s" | "s' = s @ [Object []]"
    | a where "opts = VRef a" "\<not> truthy_ref (lookup_ref (named (cell_of s a)) ''jsc'')"
        "s' = (s @ [Object []])[a := assign ''jsc'' (VRef (length s)) (cell_of (s @ [Object []]) a)]"
    by blast
  then show "accumulates opts s s'"
  proof cases
    case 1
    then show ?thesis by (simp add: accumulates_refl)
  next
    case 2
    with i show ?thesis by (intro fresh_only) (simp_all add: nth_append)
  next
    case 3
    from 3(1) have "container opts s a ''jsc''" by (simp add: container_def)
    from created_accumulates [OF i this, where v = "VRef (length s)" and fresh = "Object []"] 3 show ?thesis by simp
  qed
qed

lemma keeps_create_experimental: "keeps opts (create_experimental opts)"
  unfolding keeps_def
proof (intro allI impI)
  fix s r s'
  assume i: "in_store s opts" and c: "create_experimental opts s = (r, s')"
  from create_experimental_effect [OF c] consider "s' = s" | "s' = s @ [Object []]"
    | a where "optProp_ref s opts ''jsc'' = VRef a"
        "\<not> truthy_ref (lookup_ref (named (cell_of s a)) ''experimental'')"
        "s' = (s @ [Object []])[a := assign ''experimental'' (VRef (length s)) (cell_of (s @ [Object []]) a)]"
    by blast
  then show "accumulates opts s s'"
  proof cases
    case 1
    then show ?thesis by (simp add: accumulates_refl)
  next
    case 2
    with i show ?thesis by (intro fresh_only) (simp_all add: nth_append)
  next
    case 3
    from 3(1) have "container opts s a ''experimental''" by (simp add: container_def getPath_ref_one)
    from created_accumulates [OF i this, where v = "VRef (length s)" and fresh = "Object []"] 3 show ?thesis by simp
  qed
qed

lemma keeps_create_plugins: "keeps opts (create_plugins opts)"
  unfolding keeps_def
proof (intro allI impI)
  fix s r s'
  assume i: "in_store s opts" and c: "create_plugins opts s = (r, s')"
  from create_plugins_effect [OF c] consider "s' = s" | "s' = s @ [Array [] []]"
    | a where "optProp_ref s (optProp_ref s opts ''jsc'') ''experimental'' = VRef a"
        "\<not> isArray_ref s (lookup_ref (named (cell_of s a)) ''plugins'')"
        "s' = (s @ [Array [] []])[a := assign ''plugins'' (VRef (length s)) (cell_of (s @ [Array [] []]) a)]"
    by blast
  then show "accumulates opts s s'"
  proof cases
    case 1
    then show ?thesis by (simp add: accumulates_refl)
  next
    case 2
    with i show ?thesis by (intro fresh_only) (simp_all add: nth_append)
  next
    case 3
    from 3(1) have "container opts s a ''plugins''" by (simp add: container_def getPath_ref_two)
    from created_accumulates [OF i this, where v = "VRef (length s)" and fresh = "Array [] []"] 3 show ?thesis by simp
  qed
qed

lemma push_ref_effect:
  assumes "push_ref p x s = (r, s')"
  shows "s' = s \<or> (\<exists>a es ps. p = VRef a \<and> cell_of s a = Array es ps \<and> s' = s[a := Array (es @ [x]) ps])"
  using assms by (auto simp: push_ref_def split: val.splits cell.splits)

lemma push_descriptor_effect:
  assumes "push_descriptor opts io s = (r, s')"
  shows "(\<exists>cs. s' = s @ cs) \<or>
         (\<exists>a es ps cs d v. getPath_ref s opts [''jsc'', ''experimental'', ''plugins''] = VRef a \<and>
              cell_of (s @ cs) a = Array es ps \<and> s' = (s @ cs)[a := Array (es @ [VRef d]) ps] \<and>
              length s \<le> d \<and> cell_of (s @ cs) d = Array [VStr coverage_plugin, v] [])"
proof (cases "getProp_ref s opts ''jsc''")
  case (Inl e)
  with assms show ?thesis by (simp add: push_descriptor_def bindS_def readS_def)
next
  case (Inr j)
  then have j: "optProp_ref s opts ''jsc'' = j" by (simp add: optProp_ref_def)
  show ?thesis
  proof (cases "getProp_ref s j ''experimental''")
    case (Inl e)
    with assms Inr show ?thesis by (simp add: push_descriptor_def bindS_def readS_def)
  next
    case e: (Inr e)
    then have e': "optProp_ref s j ''experimental'' = e" by (simp add: optProp_ref_def)
    show ?thesis
    proof (cases "getProp_ref s e ''plugins''")
      case (Inl err)
      with assms Inr e show ?thesis by (simp add: push_descriptor_def bindS_def readS_def)
    next
      case p: (Inr p)
      then have "optProp_ref s e ''plugins'' = p" by (simp add: optProp_ref_def)
      then have p': "getPath_ref s opts [''jsc'', ''experimental'', ''plugins''] = p"
        by (simp add: getPath_ref_three j e')
      show ?thesis
      proof (cases "nullish_ref p")
        case True
        with assms Inr e p show ?thesis
          by (simp add: push_descriptor_def bindS_def readS_def returnS_def)
      next
        case False
        define cs where "cs = (if nullish_ref io then [Object []] else [])
            @ [Array [VStr coverage_plugin, if nullish_ref io then VRef (length s) else io] []]"
        define d where "d = length s + (if nullish_ref io then 1 else 0)"
        from assms Inr e p False have "push_ref p (VRef d) (s @ cs) = (r, s')"
          by (auto simp: push_descriptor_def bindS_def readS_def returnS_def alloc_def cs_def d_def)
        moreover have "length s \<le> d" by (simp add: d_def)
        moreover have "cell_of (s @ cs) d
            = Array [VStr coverage_plugin, if nullish_ref io then VRef (length s) else io] []"
          by (simp add: cell_of_def cs_def d_def nth_append)
        ultimately show ?thesis using push_ref_effect [of p "VRef d" "s @ cs" r s'] p' by blast
      qed
    qed
  qed
qed

lemma keeps_push_descriptor: "keeps opts (push_descriptor opts io)"
  unfolding keeps_def
proof (intro allI impI)
  fix s r s'
  assume i: "in_store s opts" and c: "push_descriptor opts io s = (r, s')"
  from push_descriptor_effect [OF c] consider cs where "s' = s @ cs"
    | a es ps cs d v where "getPath_ref s opts [''jsc'', ''experimental'', ''plugins''] = VRef a"
        "cell_of (s @ cs) a = Array es ps" "s' = (s @ cs)[a := Array (es @ [VRef d]) ps]"
        "length s \<le> d" "cell_of (s @ cs) d = Array [VStr coverage_plugin, v] []"
    by blast
  then show "accumulates opts s s'"
  proof cases
    case 1
    with i show ?thesis by (intro fresh_only) (simp_all add: nth_append)
  next
    case 2
    show ?thesis
    proof (cases "a < length s")
      case True
      with 2(2) have cell: "s ! a = Array es ps" by (simp add: cell_of_def nth_append)
      from True 2(4) have "d \<noteq> a" by simp
      with 2(5) have "index0_ref ((s @ cs)[a := Array (es @ [VRef d]) ps]) (VRef d) = Inr (VStr coverage_plugin)"
        by (simp add: cell_of_def nth_list_update split: if_splits)
      from push_accumulates [OF i True 2(1) cell this] 2(3) show ?thesis by simp
    next
      case False
      with 2(3) have "\<forall>b<length s. s' ! b = s ! b" by (simp add: nth_list_update nth_append)
      with i 2(3) show ?thesis by (intro fresh_only) simp_all
    qed
  qed
qed

lemma keeps_insert: "keeps opts (insertInstrumentationOptions_ref jo can opts io)"
  unfolding insertInstrumentationOptions_ref_def Let_def
  by (intro keeps_if keeps_bindS keeps_returnS keeps_readS keeps_create_jsc keeps_create_experimental
      keeps_create_plugins keeps_push_descriptor)








lemma accumulates_module:
  assumes acc: "accumulates opts s s'" and i: "in_store s opts"
    and m: "in_store s (getPath_ref s opts [''module''])"
  shows "getPath_ref s' opts [''module''] = getPath_ref s opts [''module'']"
    and "getPath_ref s' opts [''module'', ''type''] = getPath_ref s opts [''module'', ''type'']"
proof -
  from acc have len: "length s \<le> length s'"
    and fr: "\<And>a k. a < length s \<Longrightarrow> \<not> container opts s' a k \<Longrightarrow>
        lookup_ref (named (s' ! a)) k = lookup_ref (named (s ! a)) k"
    unfolding accumulates_def by blast+
  have rd: "optProp_ref s' v k = optProp_ref s v k"
    if "in_store s v" "k \<noteq> ''jsc''" "k \<noteq> ''experimental''" "k \<noteq> ''plugins''" for v k
  proof (cases v)
    case (VRef a)
    with that have a: "a < length s" by simp
    from that have "\<not> container opts s' a k" by (simp add: container_def)
    from fr [OF a this] a len show ?thesis by (simp add: VRef optProp_ref_VRef cell_of_def)
  qed (simp_all add: optProp_ref_def)
  show 1: "getPath_ref s' opts [''module''] = getPath_ref s opts [''module'']"
    by (simp add: getPath_ref_one rd i)
  from m have "in_store s (optProp_ref s opts ''module'')" by (simp add: getPath_ref_one)
  then have "optProp_ref s' (optProp_ref s opts ''module'') ''type''
      = optProp_ref s (optProp_ref s opts ''module'') ''type''"
    by (rule rd) simp_all
  with 1 show "getPath_ref s' opts [''module'', ''type''] = getPath_ref s opts [''module'', ''type'']"
    by (simp add: getPath_ref_one getPath_ref_two)
qed



subsection \<open>What a call hands to the compiler\<close>

lemma overlay_ref_effect:
  assumes "overlay_ref opts ty filename s = (Inr ov, s')"
  shows "\<exists>m. getProp_ref s opts ''module'' = Inr m \<and> ov = VRef (Suc (length s)) \<and>
           s' = s @ [Object (AList.update ''type'' (VStr ty) (ownProps_ref s m)),
                     Object (AList.update ''filename'' (VStr filename)
                              (AList.update ''module'' (VRef (length s))
                                 (ownProps_ref (s @ [Object (AList.update ''type'' (VStr ty) (ownProps_ref s m))]) opts)))]"
  using assms
  by (cases "getProp_ref s opts ''module''")
     (auto simp: overlay_ref_def bindS_def readS_def alloc_def)

lemma ownProps_ref_append: "in_store s v \<Longrightarrow> ownProps_ref (s @ cs) v = ownProps_ref s v"
  by (cases v) (simp_all add: cell_of_def nth_append)

lemma optProp_ref_append: "in_store s v \<Longrightarrow> optProp_ref (s @ cs) v k = optProp_ref s v k"
  by (cases v) (simp_all add: optProp_ref_def cell_of_def nth_append)

lemma overlay_ref_overlays:
  assumes ov: "overlay_ref opts ty filename s = (Inr ov, s')"
    and i: "in_store s opts" and m: "in_store s (getPath_ref s opts [''module''])"
  shows "\<not> in_store s ov" and "in_store s' ov"
    and "getPath_ref s' ov [''module'', ''type''] = VStr ty"
    and "getPath_ref s' ov [''filename''] = VStr filename"
    and "\<forall>k. k \<noteq> ''module'' \<and> k \<noteq> ''filename'' \<longrightarrow> ownProp_ref s' ov k = ownProp_ref s' opts k"
    and "\<not> in_store s (getPath_ref s' ov [''module''])"
    and "\<forall>k. k \<noteq> ''type'' \<longrightarrow>
           ownProp_ref s' (getPath_ref s' ov [''module'']) k = ownProp_ref s' (getPath_ref s' opts [''module'']) k"
    and "length s \<le> length s'"
proof -
  from overlay_ref_effect [OF ov] obtain mv where
    mv: "getProp_ref s opts ''module'' = Inr mv" and a: "ov = VRef (Suc (length s))"
    and s': "s' = s @ [Object (AList.update ''type'' (VStr ty) (ownProps_ref s mv)),
                     Object (AList.update ''filename'' (VStr filename)
                              (AList.update ''module'' (VRef (length s))
                                 (ownProps_ref (s @ [Object (AList.update ''type'' (VStr ty) (ownProps_ref s mv))]) opts)))]"
    by blast
  from mv have mv': "optProp_ref s opts ''module'' = mv" by (simp add: optProp_ref_def)
  with m have im: "in_store s mv" by (simp add: getPath_ref_one)
  have inner: "cell_of s' (length s) = Object (AList.update ''type'' (VStr ty) (ownProps_ref s mv))"
    by (simp add: s' cell_of_def nth_append)
  have outer: "cell_of s' (Suc (length s)) = Object (AList.update ''filename'' (VStr filename)
                              (AList.update ''module'' (VRef (length s)) (ownProps_ref s opts)))"
    by (simp add: s' cell_of_def nth_append ownProps_ref_append [OF i])
  have om: "optProp_ref s' ov ''module'' = VRef (length s)"
    by (simp add: a optProp_ref_VRef outer lookup_ref_update)
  have sm: "optProp_ref s' opts ''module'' = mv"
    unfolding s' using i mv' by (simp add: optProp_ref_append)
  show "\<not> in_store s ov" by (simp add: a)
  show "in_store s' ov" by (simp add: a s')
  show "getPath_ref s' ov [''module'', ''type''] = VStr ty"
    by (simp add: getPath_ref_two om optProp_ref_VRef inner lookup_ref_update)
  show "getPath_ref s' ov [''filename''] = VStr filename"
    by (simp add: getPath_ref_one a optProp_ref_VRef outer lookup_ref_update)
  have "ownProps_ref s' opts = ownProps_ref s opts"
    unfolding s' using i by (rule ownProps_ref_append)
  then show "\<forall>k. k \<noteq> ''module'' \<and> k \<noteq> ''filename'' \<longrightarrow> ownProp_ref s' ov k = ownProp_ref s' opts k"
    by (simp add: ownProp_ref_def a outer lookup_ref_update)
  show "\<not> in_store s (getPath_ref s' ov [''module''])"
    by (simp add: getPath_ref_one om)
  have "ownProps_ref s' mv = ownProps_ref s mv"
    unfolding s' using im by (rule ownProps_ref_append)
  then show "\<forall>k. k \<noteq> ''type'' \<longrightarrow>
           ownProp_ref s' (getPath_ref s' ov [''module'']) k = ownProp_ref s' (getPath_ref s' opts [''module'']) k"
    by (simp add: getPath_ref_one om sm ownProp_ref_def inner lookup_ref_update)
  show "length s \<le> length s'" by (simp add: s')
qed

lemma bindS_Inr:
  assumes "bindS m f s = (Inr y, s')"
  obtains x s1 where "m s = (Inr x, s1)" "f x s1 = (Inr y, s')"
  using assms by (auto simp: bindS_def split: prod.splits sum.splits)

lemma process_ref_Inr:
  assumes "process_ref t src filename jo s = (Inr c, s')"
  obtains s1 ov where
    "insertInstrumentationOptions_ref jo (canInstrument_ref t) (computedSwcOptions_ref t)
       (instrumentOptions_ref t) s = (Inr (), s1)"
    "overlay_ref (computedSwcOptions_ref t) (if supportsStaticESM jo then ''es6'' else ''commonjs'') filename s1
       = (Inr ov, s')"
    "c = TransformSync_ref src ov"
proof -
  from assms [unfolded process_ref_def] obtain u s1 where
    1: "insertInstrumentationOptions_ref jo (canInstrument_ref t) (computedSwcOptions_ref t)
       (instrumentOptions_ref t) s = (Inr u, s1)"
    and 2: "bindS (overlay_ref (computedSwcOptions_ref t)
              (if supportsStaticESM jo then ''es6'' else ''commonjs'') filename)
              (\<lambda>ov. returnS (TransformSync_ref src ov)) s1 = (Inr c, s')"
    by (rule bindS_Inr)
  from 2 obtain ov s2 where 3: "overlay_ref (computedSwcOptions_ref t)
              (if supportsStaticESM jo then ''es6'' else ''commonjs'') filename s1 = (Inr ov, s2)"
    and 4: "returnS (TransformSync_ref src ov) s2 = (Inr c, s')"
    by (rule bindS_Inr)
  from 4 have "c = TransformSync_ref src ov" "s2 = s'" by (simp_all add: returnS_def)
  with 1 3 that show thesis by simp
qed

lemma processAsync_ref_Inr:
  assumes "processAsync_ref t src filename jo s = (Inr c, s')"
  obtains s1 ov where
    "insertInstrumentationOptions_ref jo (canInstrument_ref t) (computedSwcOptions_ref t)
       (instrumentOptions_ref t) s = (Inr (), s1)"
    "overlay_ref (computedSwcOptions_ref t) ''es6'' filename s1 = (Inr ov, s')"
    "c = Transform_ref src ov"
proof -
  from assms [unfolded processAsync_ref_def] obtain u s1 where
    1: "insertInstrumentationOptions_ref jo (canInstrument_ref t) (computedSwcOptions_ref t)
       (instrumentOptions_ref t) s = (Inr u, s1)"
    and 2: "bindS (overlay_ref (computedSwcOptions_ref t) ''es6'' filename)
              (\<lambda>ov. returnS (Transform_ref src ov)) s1 = (Inr c, s')"
    by (rule bindS_Inr)
  from 2 obtain ov s2 where 3: "overlay_ref (computedSwcOptions_ref t) ''es6'' filename s1 = (Inr ov, s2)"
    and 4: "returnS (Transform_ref src ov) s2 = (Inr c, s')"
    by (rule bindS_Inr)
  from 4 have "c = Transform_ref src ov" "s2 = s'" by (simp_all add: returnS_def)
  with 1 3 that show thesis by simp
qed

lemma insert_then_overlay:
  assumes ins: "insertInstrumentationOptions_ref jo can opts io s = (Inr (), s1)"
    and ov: "overlay_ref opts ty filename s1 = (Inr ov, s')"
    and i: "in_store s opts" and m: "in_store s (getPath_ref s opts [''module''])"
  shows "\<not> in_store s ov \<and> in_store s' ov \<and>
         getPath_ref s' ov [''module'', ''type''] = VStr ty \<and>
         getPath_ref s' ov [''filename''] = VStr filename \<and>
         (\<forall>k. k \<noteq> ''module'' \<and> k \<noteq> ''filename'' \<longrightarrow> ownProp_ref s' ov k = ownProp_ref s' opts k) \<and>
         \<not> in_store s (getPath_ref s' ov [''module'']) \<and>
         (\<forall>k. k \<noteq> ''type'' \<longrightarrow>
            ownProp_ref s' (getPath_ref s' ov [''module'']) k
              = ownProp_ref s' (getPath_ref s' opts [''module'']) k)"
proof -
  from keeps_insert [of opts jo can io] i ins have acc: "accumulates opts s s1"
    unfolding keeps_def by blast
  then have len: "length s \<le> length s1" by (simp add: accumulates_def)
  with i have i1: "in_store s1 opts" by (rule in_store_mono)
  from accumulates_module(1) [OF acc i m] m len have m1: "in_store s1 (getPath_ref s1 opts [''module''])"
    by (simp add: in_store_mono)
  note o = overlay_ref_overlays [OF ov i1 m1]
  from o(1) len have "\<not> in_store s ov" by (auto dest: in_store_mono)
  moreover from o(6) len have "\<not> in_store s (getPath_ref s' ov [''module''])" by (auto dest: in_store_mono)
  ultimately show ?thesis using o(2-5) o(7) by blast
qed

text \<open>
  C3. A call of the synchronous operation that reaches the compiler hands it a new object
  (none of the store before the call) that overlays the shared options: its \<^verbatim>\<open>module\<close> is
  a new object whose \<^verbatim>\<open>type\<close> is \<^verbatim>\<open>'es6'\<close> when the call context's \<^verbatim>\<open>supportsStaticESM\<close>
  is true and \<^verbatim>\<open>'commonjs'\<close> when it is false, and whose other own properties are those of
  the shared options' \<^verbatim>\<open>module\<close>; its \<^verbatim>\<open>filename\<close> is the file name of the call; and
  every other own property is the shared options' own property of that name, as the call
  leaves them. A call of the asynchronous operation hands over the same with
  \<^verbatim>\<open>'es6'\<close> whatever the flag is. (The shared options and the value at \<^verbatim>\<open>module\<close> are
  primitives or objects of the store.)
\<close>

theorem module_type_per_call:
  assumes "in_store s (computedSwcOptions_ref t)"
    and "in_store s (getPath_ref s (computedSwcOptions_ref t) [''module''])"
  shows
  "(process_ref t src filename jestOptions s = (Inr c, s') \<longrightarrow>
      c = TransformSync_ref src (call_options_ref c) \<and>
      \<not> in_store s (call_options_ref c) \<and> in_store s' (call_options_ref c) \<and>
      getPath_ref s' (call_options_ref c) [''module'', ''type'']
        = VStr (if supportsStaticESM jestOptions then ''es6'' else ''commonjs'') \<and>
      getPath_ref s' (call_options_ref c) [''filename''] = VStr filename \<and>
      (\<forall>k. k \<noteq> ''module'' \<and> k \<noteq> ''filename'' \<longrightarrow>
         ownProp_ref s' (call_options_ref c) k = ownProp_ref s' (computedSwcOptions_ref t) k) \<and>
      \<not> in_store s (getPath_ref s' (call_options_ref c) [''module'']) \<and>
      (\<forall>k. k \<noteq> ''type'' \<longrightarrow>
         ownProp_ref s' (getPath_ref s' (call_options_ref c) [''module'']) k
           = ownProp_ref s' (getPath_ref s' (computedSwcOptions_ref t) [''module'']) k)) \<and>
   (processAsync_ref t src filename jestOptions s = (Inr c, s') \<longrightarrow>
      c = Transform_ref src (call_options_ref c) \<and>
      \<not> in_store s (call_options_ref c) \<and> in_store s' (call_options_ref c) \<and>
      getPath_ref s' (call_options_ref c) [''module'', ''type''] = VStr ''es6'' \<and>
      getPath_ref s' (call_options_ref c) [''filename''] = VStr filename \<and>
      (\<forall>k. k \<noteq> ''module'' \<and> k \<noteq> ''filename'' \<longrightarrow>
         ownProp_ref s' (call_options_ref c) k = ownProp_ref s' (computedSwcOptions_ref t) k) \<and>
      \<not> in_store s (getPath_ref s' (call_options_ref c) [''module'']) \<and>
      (\<forall>k. k \<noteq> ''type'' \<longrightarrow>
         ownProp_ref s' (getPath_ref s' (call_options_ref c) [''module'']) k
           = ownProp_ref s' (getPath_ref s' (computedSwcOptions_ref t) [''module'']) k))"
proof (rule conjI; rule impI; rule conjI)
  assume "process_ref t src filename jestOptions s = (Inr c, s')"
  then obtain s1 ov where
    ins: "insertInstrumentationOptions_ref jestOptions (canInstrument_ref t) (computedSwcOptions_ref t)
       (instrumentOptions_ref t) s = (Inr (), s1)"
    and ov: "overlay_ref (computedSwcOptions_ref t)
       (if supportsStaticESM jestOptions then ''es6'' else ''commonjs'') filename s1 = (Inr ov, s')"
    and c: "c = TransformSync_ref src ov"
    by (rule process_ref_Inr)
  from c have o: "call_options_ref c = ov" by simp
  from c show "c = TransformSync_ref src (call_options_ref c)" by simp
  from insert_then_overlay [OF ins ov assms]
  show "\<not> in_store s (call_options_ref c) \<and> in_store s' (call_options_ref c) \<and>
      getPath_ref s' (call_options_ref c) [''module'', ''type'']
        = VStr (if supportsStaticESM jestOptions then ''es6'' else ''commonjs'') \<and>
      getPath_ref s' (call_options_ref c) [''filename''] = VStr filename \<and>
      (\<forall>k. k \<noteq> ''module'' \<and> k \<noteq> ''filename'' \<longrightarrow>
         ownProp_ref s' (call_options_ref c) k = ownProp_ref s' (computedSwcOptions_ref t) k) \<and>
      \<not> in_store s (getPath_ref s' (call_options_ref c) [''module'']) \<and>
      (\<forall>k. k \<noteq> ''type'' \<longrightarrow>
         ownProp_ref s' (getPath_ref s' (call_options_ref c) [''module'']) k
           = ownProp_ref s' (getPath_ref s' (computedSwcOptions_ref t) [''module'']) k)"
    unfolding o .
next
  assume "processAsync_ref t src filename jestOptions s = (Inr c, s')"
  then obtain s1 ov where
    ins: "insertInstrumentationOptions_ref jestOptions (canInstrument_ref t) (computedSwcOptions_ref t)
       (instrumentOptions_ref t) s = (Inr (), s1)"
    and ov: "overlay_ref (computedSwcOptions_ref t) ''es6'' filename s1 = (Inr ov, s')"
    and c: "c = Transform_ref src ov"
    by (rule processAsync_ref_Inr)
  from c have o: "call_options_ref c = ov" by simp
  from c show "c = Transform_ref src (call_options_ref c)" by simp
  from insert_then_overlay [OF ins ov assms]
  show "\<not> in_store s (call_options_ref c) \<and> in_store s' (call_options_ref c) \<and>
      getPath_ref s' (call_options_ref c) [''module'', ''type''] = VStr ''es6'' \<and>
      getPath_ref s' (call_options_ref c) [''filename''] = VStr filename \<and>
      (\<forall>k. k \<noteq> ''module'' \<and> k \<noteq> ''filename'' \<longrightarrow>
         ownProp_ref s' (call_options_ref c) k = ownProp_ref s' (computedSwcOptions_ref t) k) \<and>
      \<not> in_store s (getPath_ref s' (call_options_ref c) [''module'']) \<and>
      (\<forall>k. k \<noteq> ''type'' \<longrightarrow>
         ownProp_ref s' (getPath_ref s' (call_options_ref c) [''module'']) k
           = ownProp_ref s' (getPath_ref s' (computedSwcOptions_ref t) [''module'']) k)"
    unfolding o .
qed

theorem module_type_per_call_witness:
  "in_store alias_store (computedSwcOptions_ref alias_instance) \<and>
   in_store alias_store (getPath_ref alias_store (computedSwcOptions_ref alias_instance) [''module'']) \<and>
   process_ref alias_instance ''export {}'' ''a.ts'' esm_coverage alias_store
     = (Inr (TransformSync_ref ''export {}'' (VRef 7)), alias_called ''es6'' ''a.ts'') \<and>
   process_ref alias_instance ''export {}'' ''a.ts'' with_coverage alias_store
     = (Inr (TransformSync_ref ''export {}'' (VRef 7)), alias_called ''commonjs'' ''a.ts'') \<and>
   processAsync_ref alias_instance ''export {}'' ''b.ts'' with_coverage alias_store
     = (Inr (Transform_ref ''export {}'' (VRef 7)), alias_called ''es6'' ''b.ts'') \<and>
   \<not> in_store alias_store (VRef 7) \<and>
   getPath_ref (alias_called ''es6'' ''a.ts'') (VRef 7) [''module'', ''type''] = VStr ''es6'' \<and>
   getPath_ref (alias_called ''commonjs'' ''a.ts'') (VRef 7) [''module'', ''type''] = VStr ''commonjs'' \<and>
   getPath_ref (alias_called ''es6'' ''b.ts'') (VRef 7) [''module'', ''type''] = VStr ''es6'' \<and>
   getPath_ref (alias_called ''es6'' ''b.ts'') (VRef 7) [''filename''] = VStr ''b.ts'' \<and>
   ownProp_ref (alias_called ''es6'' ''a.ts'') (VRef 7) ''minify'' = VBool True \<and>
   ownProp_ref (alias_called ''es6'' ''a.ts'') (VRef 7) ''jsc'' = VRef 2 \<and>
   ownProp_ref (alias_called ''es6'' ''a.ts'') (getPath_ref (alias_called ''es6'' ''a.ts'') (VRef 7) [''module''])
     ''strict'' = VBool True \<and>
   ownProp_ref (alias_called ''es6'' ''a.ts'') (getPath_ref (alias_called ''es6'' ''a.ts'') (VRef 7) [''module''])
     ''plugins'' = VRef 4"
proof -
  let ?t = alias_instance
  have h1: "in_store alias_store (computedSwcOptions_ref ?t)" by code_simp
  have h2: "in_store alias_store (getPath_ref alias_store (computedSwcOptions_ref ?t) [''module''])"
    by code_simp
  have o: "computedSwcOptions_ref ?t = VRef 0" by (simp add: alias_instance_def)
  have p1: "process_ref ?t ''export {}'' ''a.ts'' esm_coverage alias_store
     = (Inr (TransformSync_ref ''export {}'' (VRef 7)), alias_called ''es6'' ''a.ts'')"
    by code_simp
  have p2: "process_ref ?t ''export {}'' ''a.ts'' with_coverage alias_store
     = (Inr (TransformSync_ref ''export {}'' (VRef 7)), alias_called ''commonjs'' ''a.ts'')"
    by code_simp
  have p3: "processAsync_ref ?t ''export {}'' ''b.ts'' with_coverage alias_store
     = (Inr (Transform_ref ''export {}'' (VRef 7)), alias_called ''es6'' ''b.ts'')"
    by code_simp
  have f: "supportsStaticESM esm_coverage" "\<not> supportsStaticESM with_coverage"
    by (simp_all add: esm_coverage_def with_coverage_def)
  have own: "ownProp_ref (alias_called ''es6'' ''a.ts'') (VRef 0) ''minify'' = VBool True"
    "ownProp_ref (alias_called ''es6'' ''a.ts'') (VRef 0) ''jsc'' = VRef 2"
    "ownProp_ref (alias_called ''es6'' ''a.ts'') (getPath_ref (alias_called ''es6'' ''a.ts'') (VRef 0) [''module''])
       ''strict'' = VBool True"
    "ownProp_ref (alias_called ''es6'' ''a.ts'') (getPath_ref (alias_called ''es6'' ''a.ts'') (VRef 0) [''module''])
       ''plugins'' = VRef 4"
    by code_simp+
  note a = module_type_per_call [OF h1 h2, of "''export {}''" "''a.ts''" esm_coverage
      "TransformSync_ref ''export {}'' (VRef 7)" "alias_called ''es6'' ''a.ts''"]
  note b = module_type_per_call [OF h1 h2, of "''export {}''" "''a.ts''" with_coverage
      "TransformSync_ref ''export {}'' (VRef 7)" "alias_called ''commonjs'' ''a.ts''"]
  note c = module_type_per_call [OF h1 h2, of "''export {}''" "''b.ts''" with_coverage
      "Transform_ref ''export {}'' (VRef 7)" "alias_called ''es6'' ''b.ts''"]
  from a p1 f o own have A: "\<not> in_store alias_store (VRef 7)"
    "getPath_ref (alias_called ''es6'' ''a.ts'') (VRef 7) [''module'', ''type''] = VStr ''es6''"
    "ownProp_ref (alias_called ''es6'' ''a.ts'') (VRef 7) ''minify'' = VBool True"
    "ownProp_ref (alias_called ''es6'' ''a.ts'') (VRef 7) ''jsc'' = VRef 2"
    "ownProp_ref (alias_called ''es6'' ''a.ts'') (getPath_ref (alias_called ''es6'' ''a.ts'') (VRef 7) [''module''])
       ''strict'' = VBool True"
    "ownProp_ref (alias_called ''es6'' ''a.ts'') (getPath_ref (alias_called ''es6'' ''a.ts'') (VRef 7) [''module''])
       ''plugins'' = VRef 4"
    by simp_all
  from b p2 f have B: "getPath_ref (alias_called ''commonjs'' ''a.ts'') (VRef 7) [''module'', ''type''] = VStr ''commonjs''"
    by simp
  from c p3 have C: "getPath_ref (alias_called ''es6'' ''b.ts'') (VRef 7) [''module'', ''type''] = VStr ''es6''"
    "getPath_ref (alias_called ''es6'' ''b.ts'') (VRef 7) [''filename''] = VStr ''b.ts''"
    by simp_all
  from h1 h2 p1 p2 p3 A B C show ?thesis by blast
qed

subsection \<open>When the operations return on the store\<close>

text \<open>
  The statement about the compiler call is about the calls that return. On shared options
  of the declared shape (\<open>instrumentable_ref\<close>) every transform call
  returns, after any sequence of calls.
\<close>

lemma cell_of_update: "cell_of (s[a := x]) b = (if b = a \<and> a < length s then x else cell_of s b)"
  by (auto simp: cell_of_def nth_list_update)

lemma cell_of_append: "cell_of (s @ cs) b = (if b < length s then cell_of s b else cell_of cs (b - length s))"
  by (auto simp: cell_of_def nth_append)

lemma cell_of_single: "cell_of [c] b = (if b = 0 then c else Object [])"
  by (simp add: cell_of_def)

lemma lookup_ref_Nil: "lookup_ref [] k = VUndefined"
  by (simp add: lookup_ref_def)

lemma cell_of_in: "b < length s \<Longrightarrow> cell_of s b = s ! b"
  by (simp add: cell_of_def)

lemma isObject_ref_obtain: "isObject_ref s v \<Longrightarrow> \<exists>a. v = VRef a \<and> a < length s"
  by (cases v) simp_all

lemma falsy_optProp_ref: "\<not> truthy_ref x \<Longrightarrow> optProp_ref s x k = VUndefined"
  by (cases x) (simp_all add: optProp_ref_def)

lemma create_jsc_returns:
  assumes "instrumentable_ref s opts"
  shows "\<exists>s1. create_jsc opts s = (Inr (), s1) \<and> instrumentable_ref s1 opts \<and>
           isObject_ref s1 (getPath_ref s1 opts [''jsc''])"
proof -
  from assms obtain a0 where a0: "opts = VRef a0" "a0 < length s"
    by (auto simp: instrumentable_ref_def dest: isObject_ref_obtain)
  show ?thesis
  proof (cases "truthy_ref (optProp_ref s opts ''jsc'')")
    case True
    with assms a0 show ?thesis
      by (auto simp: create_jsc_def bindS_def readS_def returnS_def instrumentable_ref_def getPath_ref_one
          optProp_ref_VRef)
  next
    case False
    with a0 have "create_jsc opts s
        = (Inr (), (s @ [Object []])[a0 := assign ''jsc'' (VRef (length s)) (cell_of (s @ [Object []]) a0)])"
      by (simp add: create_jsc_def bindS_def readS_def alloc_def setProp_ref_def optProp_ref_VRef)
    moreover have "instrumentable_ref ((s @ [Object []])[a0 := assign ''jsc'' (VRef (length s)) (cell_of (s @ [Object []]) a0)]) opts
        \<and> isObject_ref ((s @ [Object []])[a0 := assign ''jsc'' (VRef (length s)) (cell_of (s @ [Object []]) a0)])
             (getPath_ref ((s @ [Object []])[a0 := assign ''jsc'' (VRef (length s)) (cell_of (s @ [Object []]) a0)]) opts [''jsc''])"
    proof -
      let ?s1 = "(s @ [Object []])[a0 := assign ''jsc'' (VRef (length s)) (cell_of (s @ [Object []]) a0)]"
      have j: "optProp_ref ?s1 opts ''jsc'' = VRef (length s)"
        using a0 by (simp add: optProp_ref_VRef cell_of_update cell_of_append named_assign lookup_ref_update)
      have e: "optProp_ref ?s1 (VRef (length s)) ''experimental'' = VUndefined"
        using a0 by (simp add: optProp_ref_VRef cell_of_update cell_of_append cell_of_single lookup_ref_Nil)
      have p: "optProp_ref ?s1 VUndefined ''plugins'' = VUndefined" by (simp add: optProp_ref_def)
      from a0 have o: "isObject_ref ?s1 opts" by simp
      show ?thesis
        unfolding instrumentable_ref_def getPath_ref_one getPath_ref_two getPath_ref_three j e p
        by (simp add: descriptors_ref_def o)
    qed
    ultimately show ?thesis by simp
  qed
qed

lemma instrumentable_refI:
  assumes "isObject_ref s opts"
    and "optProp_ref s opts ''jsc'' = j" and "\<not> truthy_ref j \<or> isObject_ref s j"
    and "optProp_ref s j ''experimental'' = e" and "\<not> truthy_ref e \<or> isObject_ref s e"
    and "optProp_ref s e ''plugins'' = p" and "descriptors_ref s p"
  shows "instrumentable_ref s opts"
  using assms unfolding instrumentable_ref_def getPath_ref_one getPath_ref_two getPath_ref_three by simp

lemma create_experimental_returns:
  assumes i: "instrumentable_ref s opts" and jo: "isObject_ref s (getPath_ref s opts [''jsc''])"
  shows "\<exists>s1. create_experimental opts s = (Inr (), s1) \<and> instrumentable_ref s1 opts \<and>
           isObject_ref s1 (getPath_ref s1 opts [''jsc'']) \<and>
           isObject_ref s1 (getPath_ref s1 opts [''jsc'', ''experimental''])"
proof -
  from i obtain a0 where a0: "opts = VRef a0" "a0 < length s"
    by (auto simp: instrumentable_ref_def dest: isObject_ref_obtain)
  from jo obtain aj where aj: "optProp_ref s opts ''jsc'' = VRef aj" "aj < length s"
    by (auto simp: getPath_ref_one dest: isObject_ref_obtain)
  from aj a0 have g1: "getProp_ref s opts ''jsc'' = Inr (VRef aj)"
    by (simp add: optProp_ref_def)
  show ?thesis
  proof (cases "truthy_ref (optProp_ref s (VRef aj) ''experimental'')")
    case True
    then have "create_experimental opts s = (Inr (), s)"
      using g1 by (simp add: create_experimental_def bindS_def readS_def returnS_def optProp_ref_VRef)
    moreover from i True aj have "isObject_ref s (getPath_ref s opts [''jsc'', ''experimental''])"
      by (simp add: instrumentable_ref_def getPath_ref_two)
    ultimately show ?thesis using i jo by simp
  next
    case False
    let ?s1 = "(s @ [Object []])[aj := assign ''experimental'' (VRef (length s)) (cell_of (s @ [Object []]) aj)]"
    from False g1 have run: "create_experimental opts s = (Inr (), ?s1)"
      by (simp add: create_experimental_def bindS_def readS_def alloc_def setProp_ref_def optProp_ref_VRef)
    have j: "optProp_ref ?s1 opts ''jsc'' = VRef aj"
      using a0 aj
      by (auto simp: optProp_ref_VRef cell_of_update cell_of_append named_assign lookup_ref_update)
    have e: "optProp_ref ?s1 (VRef aj) ''experimental'' = VRef (length s)"
      using aj by (simp add: optProp_ref_VRef cell_of_update cell_of_append named_assign lookup_ref_update)
    have p: "optProp_ref ?s1 (VRef (length s)) ''plugins'' = VUndefined"
      using aj by (simp add: optProp_ref_VRef cell_of_update cell_of_append cell_of_single lookup_ref_Nil)
    from a0 have o: "isObject_ref ?s1 opts" by simp
    from aj have oj: "isObject_ref ?s1 (VRef aj)" by simp
    have oe: "isObject_ref ?s1 (VRef (length s))" by simp
    have "instrumentable_ref ?s1 opts"
      by (rule instrumentable_refI [OF o j disjI2 [OF oj] e disjI2 [OF oe] p]) (simp add: descriptors_ref_def)
    with run j e oj oe show ?thesis by (simp add: getPath_ref_one getPath_ref_two)
  qed
qed

lemma descriptors_not_array:
  "descriptors_ref s p \<Longrightarrow> \<not> isArray_ref s p \<Longrightarrow> nullish_ref p"
  by (auto simp: descriptors_ref_def isArray_ref_def split: val.splits cell.splits)

lemma create_plugins_returns:
  assumes i: "instrumentable_ref s opts" and jo: "isObject_ref s (getPath_ref s opts [''jsc''])"
    and eo: "isObject_ref s (getPath_ref s opts [''jsc'', ''experimental''])"
  shows "\<exists>s1. create_plugins opts s = (Inr (), s1) \<and> instrumentable_ref s1 opts \<and>
           isObject_ref s1 (getPath_ref s1 opts [''jsc'']) \<and>
           isObject_ref s1 (getPath_ref s1 opts [''jsc'', ''experimental'']) \<and>
           isArray_ref s1 (getPath_ref s1 opts [''jsc'', ''experimental'', ''plugins''])"
proof -
  from i obtain a0 where a0: "opts = VRef a0" "a0 < length s"
    by (auto simp: instrumentable_ref_def dest: isObject_ref_obtain)
  from jo obtain aj where aj: "optProp_ref s opts ''jsc'' = VRef aj" "aj < length s"
    by (auto simp: getPath_ref_one dest: isObject_ref_obtain)
  from eo aj obtain ae where ae: "optProp_ref s (VRef aj) ''experimental'' = VRef ae" "ae < length s"
    by (auto simp: getPath_ref_two dest: isObject_ref_obtain)
  from aj a0 have g1: "getProp_ref s opts ''jsc'' = Inr (VRef aj)"
    by (simp add: optProp_ref_def)
  from ae have g2: "getProp_ref s (VRef aj) ''experimental'' = Inr (VRef ae)"
    by (simp add: optProp_ref_def)
  show ?thesis
  proof (cases "isArray_ref s (optProp_ref s (VRef ae) ''plugins'')")
    case True
    then have "create_plugins opts s = (Inr (), s)"
      using g1 g2 by (simp add: create_plugins_def bindS_def readS_def returnS_def optProp_ref_VRef)
    moreover from True aj ae have "isArray_ref s (getPath_ref s opts [''jsc'', ''experimental'', ''plugins''])"
      by (simp add: getPath_ref_three)
    ultimately show ?thesis using i jo eo by simp
  next
    case False
    let ?s1 = "(s @ [Array [] []])[ae := assign ''plugins'' (VRef (length s)) (cell_of (s @ [Array [] []]) ae)]"
    from False g1 g2 have run: "create_plugins opts s = (Inr (), ?s1)"
      by (simp add: create_plugins_def bindS_def readS_def alloc_def setProp_ref_def optProp_ref_VRef)
    have j: "optProp_ref ?s1 opts ''jsc'' = VRef aj"
      using a0 aj ae
      by (auto simp: optProp_ref_VRef cell_of_update cell_of_append named_assign lookup_ref_update)
    have e: "optProp_ref ?s1 (VRef aj) ''experimental'' = VRef ae"
      using aj ae by (auto simp: optProp_ref_VRef cell_of_update cell_of_append named_assign lookup_ref_update)
    have p: "optProp_ref ?s1 (VRef ae) ''plugins'' = VRef (length s)"
      using ae by (simp add: optProp_ref_VRef cell_of_update cell_of_append named_assign lookup_ref_update)
    have c: "cell_of ?s1 (length s) = Array [] []"
      using ae by (simp add: cell_of_update cell_of_append cell_of_single)
    from a0 have o: "isObject_ref ?s1 opts" by simp
    from aj have oj: "isObject_ref ?s1 (VRef aj)" by simp
    from ae have oe: "isObject_ref ?s1 (VRef ae)" by simp
    have arr: "isArray_ref ?s1 (VRef (length s))" unfolding isArray_ref_def using c by simp
    have d: "descriptors_ref ?s1 (VRef (length s))" unfolding descriptors_ref_def using c by simp
    have "instrumentable_ref ?s1 opts"
      by (rule instrumentable_refI [OF o j disjI2 [OF oj] e disjI2 [OF oe] p d])
    with run j e p oj oe arr show ?thesis by (simp add: getPath_ref_one getPath_ref_two getPath_ref_three)
  qed
qed

lemma push_descriptor_returns:
  assumes i: "instrumentable_ref s opts" and jo: "isObject_ref s (getPath_ref s opts [''jsc''])"
    and eo: "isObject_ref s (getPath_ref s opts [''jsc'', ''experimental''])"
    and pa: "isArray_ref s (getPath_ref s opts [''jsc'', ''experimental'', ''plugins''])"
  shows "\<exists>s1. push_descriptor opts io s = (Inr (), s1) \<and> instrumentable_ref s1 opts"
proof -
  from i obtain a0 where a0: "opts = VRef a0" "a0 < length s"
    by (auto simp: instrumentable_ref_def dest: isObject_ref_obtain)
  from jo obtain aj where aj: "optProp_ref s opts ''jsc'' = VRef aj" "aj < length s"
    by (auto simp: getPath_ref_one dest: isObject_ref_obtain)
  from eo aj obtain ae where ae: "optProp_ref s (VRef aj) ''experimental'' = VRef ae" "ae < length s"
    by (auto simp: getPath_ref_two dest: isObject_ref_obtain)
  from isArray_ref_in [OF pa] aj ae obtain ap where
    ap: "optProp_ref s (VRef ae) ''plugins'' = VRef ap" "ap < length s" "isArrayCell (s ! ap)"
    by (auto simp: getPath_ref_three)
  then obtain es ps where cell: "s ! ap = Array es ps" by (cases "s ! ap") simp_all
  from i aj ae ap cell have nn: "\<forall>x \<in> set es. \<not> nullish_ref x"
    by (simp add: instrumentable_ref_def getPath_ref_three descriptors_ref_def cell_of_in)
  from aj a0 have g1: "getProp_ref s opts ''jsc'' = Inr (VRef aj)"
    by (simp add: optProp_ref_def)
  from ae have g2: "getProp_ref s (VRef aj) ''experimental'' = Inr (VRef ae)"
    by (simp add: optProp_ref_def)
  from ap have g3: "getProp_ref s (VRef ae) ''plugins'' = Inr (VRef ap)"
    by (simp add: optProp_ref_def)
  define cs where "cs = (if nullish_ref io then [Object []] else [])
      @ [Array [VStr coverage_plugin, if nullish_ref io then VRef (length s) else io] []]"
  define d where "d = VRef (length s + (if nullish_ref io then 1 else 0))"
  let ?s1 = "(s @ cs)[ap := Array (es @ [d]) ps]"
  have c': "cell_of (s @ cs) ap = Array es ps" using ap cell by (simp add: cell_of_append cell_of_in)
  have run: "push_descriptor opts io s = (Inr (), ?s1)"
    using g1 g2 g3 c'
    by (auto simp: push_descriptor_def bindS_def readS_def returnS_def alloc_def push_ref_def cs_def d_def)
  have rd: "optProp_ref ?s1 (VRef b) k = optProp_ref s (VRef b) k" if "b < length s" for b k
    using that ap cell
    by (auto simp: optProp_ref_VRef cell_of_update cell_of_append cell_of_in)
  have j: "optProp_ref ?s1 opts ''jsc'' = VRef aj" using a0 aj rd [of a0] by simp
  have e: "optProp_ref ?s1 (VRef aj) ''experimental'' = VRef ae" using aj ae rd [of aj] by simp
  have p: "optProp_ref ?s1 (VRef ae) ''plugins'' = VRef ap" using ae ap rd [of ae] by simp
  have c: "cell_of ?s1 ap = Array (es @ [d]) ps"
    using ap by (simp add: cell_of_update)
  from a0 have o: "isObject_ref ?s1 opts" by simp
  from aj have oj: "isObject_ref ?s1 (VRef aj)" by simp
  from ae have oe: "isObject_ref ?s1 (VRef ae)" by simp
  have dd: "descriptors_ref ?s1 (VRef ap)"
    unfolding descriptors_ref_def using c nn by (simp add: d_def)
  have "instrumentable_ref ?s1 opts"
    by (rule instrumentable_refI [OF o j disjI2 [OF oj] e disjI2 [OF oe] p dd])
  with run show ?thesis by blast
qed

lemma some_coverage_ref_returns:
  "\<forall>x \<in> set es. \<not> nullish_ref x \<Longrightarrow> returns (some_coverage_ref s es)"
proof (induction es)
  case Nil
  show ?case by (simp add: returns_def)
next
  case (Cons x xs)
  then have "\<not> nullish_ref x" by simp
  then obtain id where "index0_ref s x = Inr id" by (cases x) simp_all
  with Cons show ?case by (auto simp: bindE_def returns_def)
qed

lemma already_inserted_ref_returns:
  assumes "instrumentable_ref s opts"
  shows "returns (already_inserted_ref s opts)"
proof -
  let ?p = "getPath_ref s opts [''jsc'', ''experimental'', ''plugins'']"
  from assms have d: "descriptors_ref s ?p" by (simp add: instrumentable_ref_def)
  show ?thesis
  proof (cases "nullish_ref ?p")
    case True
    then show ?thesis by (simp add: already_inserted_ref_def returns_def)
  next
    case False
    with d obtain a es ps where "?p = VRef a" "cell_of s a = Array es ps" "\<forall>x \<in> set es. \<not> nullish_ref x"
      by (auto simp: descriptors_ref_def split: val.splits cell.splits)
    with some_coverage_ref_returns [of es s] show ?thesis
      by (simp add: already_inserted_ref_def)
  qed
qed

lemma insert_ref_returns:
  assumes i: "instrumentable_ref s opts"
  shows "\<exists>s'. insertInstrumentationOptions_ref jo can opts io s = (Inr (), s') \<and> instrumentable_ref s' opts"
proof (cases "instrument jo \<and> can")
  case False
  with i show ?thesis by (auto simp: insertInstrumentationOptions_ref_def returnS_def)
next
  case True
  from already_inserted_ref_returns [OF i] obtain b where b: "already_inserted_ref s opts = Inr b"
    unfolding returns_Inr ..
  show ?thesis
  proof (cases b)
    case True
    with \<open>instrument jo \<and> can\<close> b i show ?thesis
      by (auto simp: insertInstrumentationOptions_ref_def returnS_def bindS_def readS_def)
  next
    case False
    from create_jsc_returns [OF i] obtain s1 where
      1: "create_jsc opts s = (Inr (), s1)" "instrumentable_ref s1 opts"
         "isObject_ref s1 (getPath_ref s1 opts [''jsc''])" by blast
    from create_experimental_returns [OF 1(2,3)] obtain s2 where
      2: "create_experimental opts s1 = (Inr (), s2)" "instrumentable_ref s2 opts"
         "isObject_ref s2 (getPath_ref s2 opts [''jsc''])"
         "isObject_ref s2 (getPath_ref s2 opts [''jsc'', ''experimental''])" by blast
    from create_plugins_returns [OF 2(2,3,4)] obtain s3 where
      3: "create_plugins opts s2 = (Inr (), s3)" "instrumentable_ref s3 opts"
         "isObject_ref s3 (getPath_ref s3 opts [''jsc''])"
         "isObject_ref s3 (getPath_ref s3 opts [''jsc'', ''experimental''])"
         "isArray_ref s3 (getPath_ref s3 opts [''jsc'', ''experimental'', ''plugins''])" by blast
    from push_descriptor_returns [OF 3(2,3,4,5)] obtain s4 where
      4: "push_descriptor opts io s3 = (Inr (), s4)" "instrumentable_ref s4 opts" by blast
    from \<open>instrument jo \<and> can\<close> b False 1(1) 2(1) 3(1) 4(1)
    have "insertInstrumentationOptions_ref jo can opts io s = (Inr (), s4)"
      by (simp add: insertInstrumentationOptions_ref_def bindS_def readS_def)
    with 4(2) show ?thesis by blast
  qed
qed

lemma instrumentable_ref_append:
  assumes "instrumentable_ref s opts"
  shows "instrumentable_ref (s @ cs) opts"
proof -
  from assms obtain a0 where a0: "opts = VRef a0" "a0 < length s"
    by (auto simp: instrumentable_ref_def dest: isObject_ref_obtain)
  have mono: "isObject_ref (s @ cs) v" if "isObject_ref s v" for v
    using that by (cases v) simp_all
  have rd: "optProp_ref (s @ cs) v k = optProp_ref s v k" if "\<not> truthy_ref v \<or> isObject_ref s v" for v k
  proof (cases "truthy_ref v")
    case False
    then show ?thesis by (simp add: falsy_optProp_ref)
  next
    case True
    with that obtain a where "v = VRef a" "a < length s" by (auto dest: isObject_ref_obtain)
    then show ?thesis by (simp add: optProp_ref_append)
  qed
  let ?j = "optProp_ref s opts ''jsc''"
  let ?e = "optProp_ref s ?j ''experimental''"
  let ?p = "optProp_ref s ?e ''plugins''"
  from assms have tj: "\<not> truthy_ref ?j \<or> isObject_ref s ?j" and te: "\<not> truthy_ref ?e \<or> isObject_ref s ?e"
    and d: "descriptors_ref s ?p"
    by (simp_all add: instrumentable_ref_def getPath_ref_one getPath_ref_two getPath_ref_three)
  have j: "optProp_ref (s @ cs) opts ''jsc'' = ?j" using a0 by (simp add: optProp_ref_append)
  have e: "optProp_ref (s @ cs) ?j ''experimental'' = ?e" using tj by (rule rd)
  have p: "optProp_ref (s @ cs) ?e ''plugins'' = ?p" using te by (rule rd)
  have d': "descriptors_ref (s @ cs) ?p"
    using d by (auto simp: descriptors_ref_def cell_of_def nth_append split: val.splits cell.splits if_splits)
  from a0 have o: "isObject_ref (s @ cs) opts" by simp
  from tj have tj': "\<not> truthy_ref ?j \<or> isObject_ref (s @ cs) ?j" by (auto intro: mono)
  from te have te': "\<not> truthy_ref ?e \<or> isObject_ref (s @ cs) ?e" by (auto intro: mono)
  show ?thesis by (rule instrumentable_refI [OF o j tj' e te' p d'])
qed

lemma overlay_ref_returns:
  assumes "instrumentable_ref s opts"
  shows "\<exists>ov s'. overlay_ref opts ty filename s = (Inr ov, s') \<and> instrumentable_ref s' opts"
proof -
  from assms obtain a0 where a0: "opts = VRef a0"
    by (auto simp: instrumentable_ref_def dest: isObject_ref_obtain)
  then obtain m where m: "getProp_ref s opts ''module'' = Inr m" by simp
  let ?inner = "Object (AList.update ''type'' (VStr ty) (ownProps_ref s m))"
  let ?outer = "Object (AList.update ''filename'' (VStr filename)
                  (AList.update ''module'' (VRef (length s)) (ownProps_ref (s @ [?inner]) opts)))"
  from m have "overlay_ref opts ty filename s = (Inr (VRef (Suc (length s))), s @ [?inner, ?outer])"
    by (simp add: overlay_ref_def bindS_def readS_def alloc_def)
  with instrumentable_ref_append [OF assms, of "[?inner, ?outer]"] show ?thesis by blast
qed

lemma perform_ref_returns:
  assumes "instrumentable_ref s (computedSwcOptions_ref t)"
  shows "\<exists>c s'. perform_ref t call s = (Inr c, s') \<and> instrumentable_ref s' (computedSwcOptions_ref t)"
proof -
  have step: "\<exists>c s'. bindS (insertInstrumentationOptions_ref jo (canInstrument_ref t) (computedSwcOptions_ref t)
              (instrumentOptions_ref t)) (\<lambda>_.
          bindS (overlay_ref (computedSwcOptions_ref t) ty filename) (\<lambda>ov. returnS (mk ov))) s = (Inr c, s')
        \<and> instrumentable_ref s' (computedSwcOptions_ref t)" for jo ty filename and mk :: "val \<Rightarrow> swc_call_ref"
  proof -
    from insert_ref_returns [OF assms] obtain s1 where
      1: "insertInstrumentationOptions_ref jo (canInstrument_ref t) (computedSwcOptions_ref t)
              (instrumentOptions_ref t) s = (Inr (), s1)" "instrumentable_ref s1 (computedSwcOptions_ref t)"
      by blast
    from overlay_ref_returns [OF 1(2)] obtain ov s' where
      2: "overlay_ref (computedSwcOptions_ref t) ty filename s1 = (Inr ov, s')"
         "instrumentable_ref s' (computedSwcOptions_ref t)" by blast
    from 1(1) 2(1) have "bindS (insertInstrumentationOptions_ref jo (canInstrument_ref t) (computedSwcOptions_ref t)
              (instrumentOptions_ref t)) (\<lambda>_.
          bindS (overlay_ref (computedSwcOptions_ref t) ty filename) (\<lambda>ov. returnS (mk ov))) s = (Inr (mk ov), s')"
      by (simp add: bindS_def returnS_def)
    with 2(2) show ?thesis by blast
  qed
  show ?thesis
  proof (cases call)
    case (Process src filename jo)
    with step [of jo "if supportsStaticESM jo then ''es6'' else ''commonjs''" filename "TransformSync_ref src"]
    show ?thesis by (simp add: process_ref_def)
  next
    case (ProcessAsync src filename jo)
    with step [of jo "''es6''" filename "Transform_ref src"]
    show ?thesis by (simp add: processAsync_ref_def)
  qed
qed

lemma run_ref_instrumentable:
  "instrumentable_ref s (computedSwcOptions_ref t) \<Longrightarrow> instrumentable_ref (run_ref t cs s) (computedSwcOptions_ref t)"
  unfolding run_ref_def
proof (induction cs arbitrary: s)
  case Nil
  then show ?case by simp
next
  case (Cons c cs)
  from perform_ref_returns [OF Cons.prems, of c]
  have "instrumentable_ref (after_ref t s c) (computedSwcOptions_ref t)"
    by (auto simp: after_ref_def)
  from Cons.IH [OF this] show ?case by simp
qed

theorem transform_calls_return_ref:
  assumes "instrumentable_ref s (computedSwcOptions_ref t)"
  shows "\<exists>c s'. perform_ref t call (run_ref t cs s) = (Inr c, s')"
  using perform_ref_returns [OF run_ref_instrumentable [OF assms]] by blast

end
